theory Spec2Isabelle
  imports Complex_Main "HOL-Library.Word" "HOL-Library.Multiset"
begin

section \<open>Python strings\<close>

text \<open>
  The backend is \<^verbatim>\<open>backend/src/main.py\<close>. A Python \<^verbatim>\<open>str\<close> is modelled as a
  \<^typ>\<open>string\<close>; a \<^typ>\<open>char\<close> stands for the code point of the same number, so the
  model covers the strings whose code points are below 256. The character classes below
  are the ones CPython uses for those code points.
\<close>

definition py_isspace :: "char \<Rightarrow> bool" where
  \<comment> \<open>\<^verbatim>\<open>str.isspace\<close> for one character; also the class \<^verbatim>\<open>\s\<close> of \<^verbatim>\<open>re\<close>.\<close>
  "py_isspace c =
     (let n = (of_char c :: nat)
      in (9 \<le> n \<and> n \<le> 13) \<or> (28 \<le> n \<and> n \<le> 32) \<or> n = 133 \<or> n = 160)"

definition py_isalnum :: "char \<Rightarrow> bool" where
  \<comment> \<open>\<^verbatim>\<open>str.isalnum\<close> for one character.\<close>
  "py_isalnum c =
     (let n = (of_char c :: nat)
      in (48 \<le> n \<and> n \<le> 57) \<or> (65 \<le> n \<and> n \<le> 90) \<or> (97 \<le> n \<and> n \<le> 122)
         \<or> n = 170 \<or> n = 178 \<or> n = 179 \<or> n = 181 \<or> n = 185 \<or> n = 186
         \<or> (188 \<le> n \<and> n \<le> 190) \<or> (192 \<le> n \<and> n \<le> 214)
         \<or> (216 \<le> n \<and> n \<le> 246) \<or> (248 \<le> n \<and> n \<le> 255))"

definition re_word_or_hyphen :: "char \<Rightarrow> bool" where
  \<comment> \<open>The class \<^verbatim>\<open>[\w-]\<close> of \<^verbatim>\<open>re\<close> on a \<^verbatim>\<open>str\<close> pattern.\<close>
  "re_word_or_hyphen c = (py_isalnum c \<or> c = CHR ''_'' \<or> c = CHR ''-'')"

definition lstrip :: "string \<Rightarrow> string" where
  "lstrip s = dropWhile py_isspace s"

definition rstrip :: "string \<Rightarrow> string" where
  "rstrip s = rev (dropWhile py_isspace (rev s))"

definition strip :: "string \<Rightarrow> string" where
  \<comment> \<open>\<^verbatim>\<open>s.strip()\<close>\<close>
  "strip s = rstrip (lstrip s)"

definition startswith :: "string \<Rightarrow> string \<Rightarrow> bool" where
  \<comment> \<open>\<^verbatim>\<open>s.startswith(p)\<close>\<close>
  "startswith s p = (take (length p) s = p)"

definition endswith :: "string \<Rightarrow> string \<Rightarrow> bool" where
  \<comment> \<open>\<^verbatim>\<open>s.endswith(p)\<close>\<close>
  "endswith s p = (length p \<le> length s \<and> drop (length s - length p) s = p)"

fun find_char :: "char \<Rightarrow> string \<Rightarrow> int" where
  \<comment> \<open>\<^verbatim>\<open>s.find(c)\<close> for a one-character \<^verbatim>\<open>c\<close>: the first index, or -1.\<close>
  "find_char c [] = -1"
| "find_char c (x # xs) =
     (if x = c then 0 else (let i = find_char c xs in if i = -1 then -1 else i + 1))"

definition rfind_char :: "char \<Rightarrow> string \<Rightarrow> int" where
  \<comment> \<open>\<^verbatim>\<open>s.rfind(c)\<close> for a one-character \<^verbatim>\<open>c\<close>: the last index, or -1.\<close>
  "rfind_char c s =
     (let i = find_char c (rev s) in if i = -1 then -1 else int (length s) - 1 - i)"

definition slice :: "string \<Rightarrow> int \<Rightarrow> int \<Rightarrow> string" where
  \<comment> \<open>\<^verbatim>\<open>s[i:j]\<close>, a negative index counting from the end.\<close>
  "slice s i j =
     (let n = int (length s);
          a = (if i < 0 then max 0 (n + i) else min i n);
          b = (if j < 0 then max 0 (n + j) else min j n)
      in take (nat (b - a)) (drop (nat a) s))"

definition slice_to :: "string \<Rightarrow> int \<Rightarrow> string" where
  \<comment> \<open>\<^verbatim>\<open>s[:j]\<close>\<close>
  "slice_to s j = slice s 0 j"

definition slice_from :: "string \<Rightarrow> int \<Rightarrow> string" where
  \<comment> \<open>\<^verbatim>\<open>s[i:]\<close>\<close>
  "slice_from s i = slice s i (int (length s))"

section \<open>Recovering the JSON text of a reply\<close>

definition fence :: string where
  "fence = [CHR 0x60, CHR 0x60, CHR 0x60]"

definition sub_opening_fence :: "string \<Rightarrow> string" where
  \<comment> \<open>\<^verbatim>\<open>re.sub(r"^```[\w-]*\s*", "", s)\<close>: the pattern is anchored at the start and each
      star is greedy with nothing after it to give back to, so the match is the fence,
      the longest run of \<^verbatim>\<open>[\w-]\<close> and the longest run of white space.\<close>
  "sub_opening_fence s =
     (if startswith s fence
      then dropWhile py_isspace (dropWhile re_word_or_hyphen (drop 3 s))
      else s)"

definition sub_closing_fence :: "string \<Rightarrow> string" where
  \<comment> \<open>\<^verbatim>\<open>re.sub(r"\s*```$", "", s)\<close>: \<^verbatim>\<open>$\<close> matches at the end of the string and before a
      newline that ends it; the leftmost match starts at the white space before the last
      fence.\<close>
  "sub_closing_fence s =
     (if endswith s fence then rstrip (take (length s - 3) s)
      else if endswith s (fence @ [CHR 0x0A]) then rstrip (take (length s - 4) s) @ [CHR 0x0A]
      else s)"

definition json_text :: "string \<Rightarrow> string" where
  \<comment> \<open>Lines 93 to 105 of \<^verbatim>\<open>coerce_json_from_model\<close>: the text handed to \<^verbatim>\<open>json.loads\<close>.\<close>
  "json_text raw =
     (let s = strip raw;
          s = (if startswith s fence then sub_closing_fence (sub_opening_fence s) else s);
          start = find_char (CHR ''{'') s;
          endi = rfind_char (CHR ''}'') s
      in if start \<noteq> -1 \<and> endi \<noteq> -1 \<and> endi > start then slice s start (endi + 1) else s)"

definition truncate_for_model :: "string \<Rightarrow> int \<Rightarrow> string" where
  "truncate_for_model doc max_chars =
     (if int (length doc) \<le> max_chars then doc
      else (let half = max_chars div 2
            in slice_to doc half @ [CHR 0x0A, CHR ''.'', CHR ''.'', CHR ''.'', CHR 0x0A]
               @ slice_from doc (- half)))"

section \<open>Floats and JSON values\<close>

text \<open>
  A Python \<^verbatim>\<open>float\<close> is modelled by the number it denotes: a finite float is the
  rational it stands for, and the three special values are kept apart because
  comparisons treat them differently. The rounding of each operation to the nearest
  double is not modelled.
\<close>

datatype pyfloat = Fin rat | PosInf | NegInf | NaN

fun py_lt :: "pyfloat \<Rightarrow> pyfloat \<Rightarrow> bool" where
  \<comment> \<open>\<^verbatim>\<open>a < b\<close> on floats: every comparison with NaN is false.\<close>
  "py_lt NaN b = False"
| "py_lt a NaN = False"
| "py_lt (Fin a) (Fin b) = (a < b)"
| "py_lt a NegInf = False"
| "py_lt NegInf b = True"
| "py_lt PosInf b = False"
| "py_lt a PosInf = True"

fun py_le :: "pyfloat \<Rightarrow> pyfloat \<Rightarrow> bool" where
  \<comment> \<open>\<^verbatim>\<open>a <= b\<close> on floats.\<close>
  "py_le NaN b = False"
| "py_le a NaN = False"
| "py_le (Fin a) (Fin b) = (a \<le> b)"
| "py_le NegInf b = True"
| "py_le a PosInf = True"
| "py_le a NegInf = False"
| "py_le PosInf b = False"

definition py_min :: "pyfloat \<Rightarrow> pyfloat \<Rightarrow> pyfloat" where
  \<comment> \<open>\<^verbatim>\<open>min(a, b)\<close>: the first argument stays unless the second is smaller.\<close>
  "py_min a b = (if py_lt b a then b else a)"

definition py_max :: "pyfloat \<Rightarrow> pyfloat \<Rightarrow> pyfloat" where
  \<comment> \<open>\<^verbatim>\<open>max(a, b)\<close>: the first argument stays unless the second is greater.\<close>
  "py_max a b = (if py_lt a b then b else a)"

definition round_half_even :: "rat \<Rightarrow> int" where
  "round_half_even y =
     (let f = \<lfloor>y\<rfloor>; d = y - of_int f
      in if d < 1 / 2 then f else if 1 / 2 < d then f + 1
         else if even f then f else f + 1)"

definition py_round2 :: "pyfloat \<Rightarrow> pyfloat" where
  \<comment> \<open>\<^verbatim>\<open>round(x, 2)\<close>: an infinity and NaN come back as they are.\<close>
  "py_round2 x = (case x of Fin q \<Rightarrow> Fin (of_int (round_half_even (q * 100)) / 100) | _ \<Rightarrow> x)"

datatype json =
    JNull
  | JBool bool
  | JInt int
  | JFloat pyfloat
  | JStr string
  | JList "json list"
  | JDict "(string \<times> json) list"

datatype exn = JSONDecodeError | AttributeError | TypeError | ValueError | OverflowError

fun dict_get :: "json \<Rightarrow> string \<Rightarrow> json \<Rightarrow> exn + json" where
  \<comment> \<open>\<^verbatim>\<open>data.get(key, default)\<close>: only a dict has the method.\<close>
  "dict_get (JDict kvs) k d = Inr (case map_of kvs k of None \<Rightarrow> d | Some v \<Rightarrow> v)"
| "dict_get v k d = Inl AttributeError"

section \<open>The environment\<close>

text \<open>
  The libraries and services the backend calls are parameters of the model: the chat
  completion client, \<^verbatim>\<open>json.loads\<close>, \<^verbatim>\<open>float\<close> and \<^verbatim>\<open>str\<close> on parsed values, SHA-1,
  the Mersenne Twister behind \<^verbatim>\<open>random\<close>, and the two PDF readers. Every theorem
  below holds for all of them. What is printed to the console is left out.
\<close>

datatype chat_reply =
    RaisesTypeError \<comment> \<open>the SDK does not know \<^verbatim>\<open>response_format\<close>\<close>
  | Raises \<comment> \<open>any other exception of the call\<close>
  | Content "string option" \<comment> \<open>\<^verbatim>\<open>resp.choices[0].message.content\<close>\<close>

datatype page = ExtractRaises | Extracted "string option"

type_synonym bytes = "8 word list"

record 'g env =
  USE_OPENAI :: bool
  OPENAI_API_KEY :: "string option"
  chat_completions_create :: "nat \<Rightarrow> bool \<Rightarrow> string \<Rightarrow> string \<Rightarrow> chat_reply"
    \<comment> \<open>the reply to request number n, asked with or without \<^verbatim>\<open>response_format\<close>,
        for a system and a user message\<close>
  json_loads :: "string \<Rightarrow> json option" \<comment> \<open>\<^verbatim>\<open>None\<close>: it raises\<close>
  float_of_str :: "string \<Rightarrow> pyfloat option" \<comment> \<open>\<^verbatim>\<open>float(s)\<close>; \<^verbatim>\<open>None\<close>: ValueError\<close>
  str_of_json :: "json \<Rightarrow> string" \<comment> \<open>\<^verbatim>\<open>str(v)\<close> of a parsed value that is no string\<close>
  sha1 :: "string \<Rightarrow> nat" \<comment> \<open>the digest of the encoded string, as a number\<close>
  init_by_array :: "nat \<Rightarrow> 'g" \<comment> \<open>the generator state after \<^verbatim>\<open>random.seed(n)\<close>\<close>
  genrand_uint32 :: "'g \<Rightarrow> 32 word \<times> 'g"
  PdfReader_pages :: "bytes \<Rightarrow> page list option"
    \<comment> \<open>\<^verbatim>\<open>None\<close>: opening the document or walking its pages raises\<close>
  pdfminer_extract_text :: "(bytes \<Rightarrow> string option option) option"
    \<comment> \<open>\<^verbatim>\<open>None\<close>: pdfminer is not installed; a result \<^verbatim>\<open>None\<close>: it raises\<close>

record 'g world =
  rng :: 'g \<comment> \<open>the state of the global generator of \<^verbatim>\<open>random\<close>\<close>
  requests :: nat \<comment> \<open>chat completion requests made so far\<close>
  scorer_calls :: "string list" \<comment> \<open>the candidates a scorer was called for, in order\<close>

definition MAX_CHARS_PER_CV :: int where
  "MAX_CHARS_PER_CV = 20000"

definition truthy :: "string option \<Rightarrow> bool" where
  "truthy v = (case v of None \<Rightarrow> False | Some s \<Rightarrow> s \<noteq> [])"

definition or_empty :: "string option \<Rightarrow> string" where
  \<comment> \<open>\<^verbatim>\<open>v or ""\<close>\<close>
  "or_empty v = (case v of None \<Rightarrow> [] | Some s \<Rightarrow> s)"

definition client :: "'g env \<Rightarrow> bool" where
  \<comment> \<open>whether the module-level \<^verbatim>\<open>client\<close> is an OpenAI client rather than \<^verbatim>\<open>None\<close>\<close>
  "client E = (USE_OPENAI E \<and> truthy (OPENAI_API_KEY E))"

section \<open>The external-model scorer\<close>

definition coerce_json_from_model :: "'g env \<Rightarrow> string \<Rightarrow> exn + json" where
  "coerce_json_from_model E raw =
     (case json_loads E (json_text raw) of None \<Rightarrow> Inl JSONDecodeError | Some v \<Rightarrow> Inr v)"

fun py_float :: "'g env \<Rightarrow> json \<Rightarrow> exn + pyfloat" where
  \<comment> \<open>\<^verbatim>\<open>float(v)\<close> of a parsed value\<close>
  "py_float E (JInt n) =
     (if 2 ^ 1024 - 2 ^ 970 \<le> \<bar>n\<bar> then Inl OverflowError else Inr (Fin (of_int n)))"
| "py_float E (JFloat x) = Inr x"
| "py_float E (JBool b) = Inr (Fin (if b then 1 else 0))"
| "py_float E (JStr s) = (case float_of_str E s of None \<Rightarrow> Inl ValueError | Some x \<Rightarrow> Inr x)"
| "py_float E v = Inl TypeError"

definition py_str :: "'g env \<Rightarrow> json \<Rightarrow> string" where
  "py_str E v = (case v of JStr s \<Rightarrow> s | _ \<Rightarrow> str_of_json E v)"

definition parse_reply :: "'g env \<Rightarrow> string \<Rightarrow> exn + pyfloat \<times> string" where
  \<comment> \<open>the body of the \<^verbatim>\<open>try\<close> of lines 170 to 173\<close>
  "parse_reply E raw =
     (case coerce_json_from_model E raw of
        Inl e \<Rightarrow> Inl e
      | Inr data \<Rightarrow>
          (case dict_get data ''score'' (JInt 50) of
             Inl e \<Rightarrow> Inl e
           | Inr v \<Rightarrow>
               (case py_float E v of
                  Inl e \<Rightarrow> Inl e
                | Inr score \<Rightarrow>
                    (case dict_get data ''reason'' (JStr []) of
                       Inl e \<Rightarrow> Inl e
                     | Inr r \<Rightarrow> Inr (score, strip (py_str E r))))))"

datatype failure =
    HTTPException nat string
  | Unhandled \<comment> \<open>an exception no handler catches: the framework answers 500\<close>

fun status_code :: "failure \<Rightarrow> nat" where
  "status_code (HTTPException c d) = c"
| "status_code Unhandled = 500"

record score_result =
  score :: pyfloat
  reason :: string
  json_mode :: bool

definition system_message :: string where
  "system_message =
     ''You are a careful recruiting screener. ''
     @ ''Given a list of desired qualities and a single CV'' @ [CHR 0x27] @ ''s text, ''
     @ ''judge the fit and respond ONLY with a compact JSON object ''
     @ ''like {\"score\": \"reason\": \"why the score\"}. ''
     @ ''Do not include code fences or any extra text.''"

definition user_message :: "string \<Rightarrow> string \<Rightarrow> string \<Rightarrow> string" where
  "user_message qualities_text cv_text candidate_name =
     ''\<newline>Qualities (one per line):\<newline>'' @ qualities_text
     @ ''\<newline>\<newline>Candidate: '' @ candidate_name
     @ ''\<newline>CV (truncated if long):\<newline>'' @ truncate_for_model cv_text MAX_CHARS_PER_CV
     @ ''\<newline>''"

definition ask_model :: "'g env \<Rightarrow> 'g world \<Rightarrow> string \<Rightarrow> (failure + string \<times> bool) \<times> 'g world" where
  \<comment> \<open>lines 144 to 167: the raw reply and \<^verbatim>\<open>use_json_mode\<close>\<close>
  "ask_model E w user =
     (let n = requests w
      in case chat_completions_create E n True system_message user of
           Content c \<Rightarrow> (Inr (strip (or_empty c), True), w\<lparr>requests := n + 1\<rparr>)
         | Raises \<Rightarrow> (Inl Unhandled, w\<lparr>requests := n + 1\<rparr>)
         | RaisesTypeError \<Rightarrow>
             (case chat_completions_create E (n + 1) False system_message user of
                Content c \<Rightarrow> (Inr (strip (or_empty c), False), w\<lparr>requests := n + 2\<rparr>)
              | _ \<Rightarrow> (Inl Unhandled, w\<lparr>requests := n + 2\<rparr>)))"

definition clamp_score :: "pyfloat \<Rightarrow> pyfloat" where
  \<comment> \<open>\<^verbatim>\<open>max(0.0, min(100.0, round(score, 2)))\<close>\<close>
  "clamp_score x = py_max (Fin 0) (py_min (Fin 100) (py_round2 x))"

definition openai_score_cv ::
  "'g env \<Rightarrow> 'g world \<Rightarrow> string \<Rightarrow> string \<Rightarrow> string \<Rightarrow> (failure + score_result) \<times> 'g world" where
  "openai_score_cv E w qualities_text cv_text candidate_name =
     (if \<not> client E then (Inl (HTTPException 500 ''OpenAI client not initialized.''), w)
      else if \<not> truthy (OPENAI_API_KEY E)
      then (Inl (HTTPException 500 ''OPENAI_API_KEY not set on server.''), w)
      else
        (case ask_model E w (user_message qualities_text cv_text candidate_name) of
           (Inl f, w') \<Rightarrow> (Inl f, w')
         | (Inr (raw, use_json_mode), w') \<Rightarrow>
             (let (x, r) =
                    (case parse_reply E raw of
                       Inl e \<Rightarrow> (Fin 50, ''Parse error; defaulted to 50.'')
                     | Inr p \<Rightarrow> p)
              in (Inr \<lparr>score = clamp_score x, reason = r, json_mode = use_json_mode\<rparr>, w'))))"

section \<open>The mock scorer\<close>

definition hex_char :: "nat \<Rightarrow> char" where
  \<comment> \<open>the lower-case hexadecimal digit of \<open>d mod 16\<close>\<close>
  "hex_char d = (let n = d mod 16 in if n < 10 then char_of (48 + n) else char_of (87 + n))"

fun hex_digits :: "nat \<Rightarrow> nat \<Rightarrow> string" where
  \<comment> \<open>the last k hexadecimal digits of d, the most significant first\<close>
  "hex_digits 0 d = []"
| "hex_digits (Suc k) d = hex_digits k (d div 16) @ [hex_char (d mod 16)]"

definition hexdigest :: "nat \<Rightarrow> string" where
  \<comment> \<open>\<^verbatim>\<open>.hexdigest()\<close> of a SHA-1 digest: 40 lower-case digits for its 160 bits\<close>
  "hexdigest d = hex_digits 40 d"

definition hex_value :: "char \<Rightarrow> nat option" where
  "hex_value c =
     (let n = (of_char c :: nat)
      in if 48 \<le> n \<and> n \<le> 57 then Some (n - 48)
         else if 97 \<le> n \<and> n \<le> 102 then Some (n - 87)
         else if 65 \<le> n \<and> n \<le> 70 then Some (n - 55)
         else None)"

fun int16_from :: "nat \<Rightarrow> string \<Rightarrow> nat option" where
  "int16_from a [] = Some a"
| "int16_from a (c # cs) =
     (case hex_value c of None \<Rightarrow> None | Some v \<Rightarrow> int16_from (16 * a + v) cs)"

definition int_base16 :: "string \<Rightarrow> exn + nat" where
  \<comment> \<open>\<^verbatim>\<open>int(s, 16)\<close> on a string of hexadecimal digits, which is all a digest holds;
      a sign, a prefix, an underscore or white space is reported as ValueError here.\<close>
  "int_base16 s =
     (if s = [] then Inl ValueError
      else case int16_from 0 s of None \<Rightarrow> Inl ValueError | Some n \<Rightarrow> Inr n)"

definition random_random :: "'g env \<Rightarrow> 'g \<Rightarrow> rat \<times> 'g" where
  \<comment> \<open>\<^verbatim>\<open>random.random()\<close>: 27 and 26 bits of two outputs of the generator make a
      53-bit fraction\<close>
  "random_random E g =
     (let (x, g1) = genrand_uint32 E g;
          (y, g2) = genrand_uint32 E g1;
          a = unat (drop_bit 5 x);
          b = unat (drop_bit 6 y)
      in ((of_nat a * 67108864 + of_nat b) / 9007199254740992, g2))"

definition random_uniform :: "'g env \<Rightarrow> 'g \<Rightarrow> rat \<Rightarrow> rat \<Rightarrow> pyfloat \<times> 'g" where
  \<comment> \<open>\<^verbatim>\<open>random.uniform(a, b)\<close> is \<^verbatim>\<open>a + (b - a) * random()\<close>\<close>
  "random_uniform E g a b = (let (r, g') = random_random E g in (Fin (a + (b - a) * r), g'))"

definition mock_score_candidate ::
  "'g env \<Rightarrow> 'g \<Rightarrow> string \<Rightarrow> string \<Rightarrow> (exn + pyfloat) \<times> 'g" where
  \<comment> \<open>the generator state goes in and comes out: \<^verbatim>\<open>random.seed\<close> replaces it\<close>
  "mock_score_candidate E g name qualities =
     (case int_base16 (hexdigest (sha1 E (name @ '':'' @ qualities))) of
        Inl e \<Rightarrow> (Inl e, g)
      | Inr seed \<Rightarrow>
          (let (x, g') = random_uniform E (init_by_array E seed) 10 100
           in (Inr (py_round2 x), g')))"

section \<open>Text extraction\<close>

fun page_parts :: "page list \<Rightarrow> string list" where
  \<comment> \<open>the loop over \<^verbatim>\<open>reader.pages\<close>: a page that raises is skipped\<close>
  "page_parts [] = []"
| "page_parts (ExtractRaises # ps) = page_parts ps"
| "page_parts (Extracted t # ps) = or_empty t # page_parts ps"

fun join :: "string \<Rightarrow> string list \<Rightarrow> string" where
  \<comment> \<open>\<^verbatim>\<open>sep.join(parts)\<close>\<close>
  "join sep [] = []"
| "join sep [p] = p"
| "join sep (p # ps) = p @ sep @ join sep ps"

definition extract_pdf_text :: "'g env \<Rightarrow> bytes \<Rightarrow> string" where
  "extract_pdf_text E content =
     (let doc = (case PdfReader_pages E content of
                   None \<Rightarrow> []
                 | Some pages \<Rightarrow> strip (join [CHR 0x0A] (page_parts pages)))
      in if doc = []
         then (case pdfminer_extract_text E of
                 None \<Rightarrow> doc
               | Some f \<Rightarrow> (case f content of None \<Rightarrow> doc | Some r \<Rightarrow> strip (or_empty r)))
         else doc)"

section \<open>The request handler\<close>

definition lower_char :: "char \<Rightarrow> char" where
  "lower_char c =
     (let n = (of_char c :: nat)
      in if (65 \<le> n \<and> n \<le> 90) \<or> (192 \<le> n \<and> n \<le> 222 \<and> n \<noteq> 215) then char_of (n + 32)
         else c)"

definition lower :: "string \<Rightarrow> string" where
  \<comment> \<open>\<^verbatim>\<open>s.lower()\<close>\<close>
  "lower s = map lower_char s"

definition is_linebreak :: "char \<Rightarrow> bool" where
  \<comment> \<open>the line boundaries of \<^verbatim>\<open>str.splitlines\<close>\<close>
  "is_linebreak c =
     (let n = (of_char c :: nat) in (10 \<le> n \<and> n \<le> 13) \<or> (28 \<le> n \<and> n \<le> 30) \<or> n = 133)"

fun splitlines_from :: "string \<Rightarrow> string \<Rightarrow> string list" where
  \<comment> \<open>the line read so far, reversed, and the rest of the text\<close>
  "splitlines_from cur [] = (if cur = [] then [] else [rev cur])"
| "splitlines_from cur (c # cs) =
     (if is_linebreak c
      then rev cur #
        (case cs of
           [] \<Rightarrow> []
         | d # ds \<Rightarrow>
             if c = CHR 0x0D \<and> d = CHR 0x0A then splitlines_from [] ds
             else splitlines_from [] (d # ds))
      else splitlines_from (c # cur) cs)"

definition splitlines :: "string \<Rightarrow> string list" where
  "splitlines s = splitlines_from [] s"

definition basename :: "string \<Rightarrow> string" where
  \<comment> \<open>\<^verbatim>\<open>os.path.basename\<close>: what follows the last slash\<close>
  "basename p = slice_from p (rfind_char (CHR ''/'') p + 1)"

definition splitext_root :: "string \<Rightarrow> string" where
  \<comment> \<open>\<^verbatim>\<open>os.path.splitext(p)[0]\<close> for a path without a slash: the part before the last
      dot, unless only dots stand before it\<close>
  "splitext_root p =
     (let i = rfind_char (CHR ''.'') p
      in if i = -1 \<or> list_all (\<lambda>c. c = CHR ''.'') (slice_to p i) then p else slice_to p i)"

fun digits10 :: "nat \<Rightarrow> string" where
  \<comment> \<open>\<^verbatim>\<open>str(n)\<close> of a length\<close>
  "digits10 n =
     (if n < 10 then [char_of (48 + n)] else digits10 (n div 10) @ [char_of (48 + n mod 10)])"

declare digits10.simps [simp del]

record candidate =
  rec_id :: string
  rec_name :: string
  rec_score :: pyfloat
  rec_url :: "string option"

fun insort_right :: "candidate \<Rightarrow> candidate list \<Rightarrow> candidate list" where
  \<comment> \<open>a record goes behind every record whose key is not greater\<close>
  "insort_right x [] = [x]"
| "insort_right x (y # ys) =
     (if py_lt (rec_score x) (rec_score y) then x # y # ys else y # insort_right x ys)"

definition sort_stable :: "candidate list \<Rightarrow> candidate list" where
  "sort_stable xs = foldl (\<lambda>acc x. insort_right x acc) [] xs"

definition sort_reverse :: "candidate list \<Rightarrow> candidate list" where
  \<comment> \<open>\<^verbatim>\<open>results.sort(key=lambda r: r["score"], reverse=True)\<close>: the list is reversed,
      sorted stably by \<^verbatim>\<open><\<close> on the keys, and reversed again. On keys that \<^verbatim>\<open><\<close> orders
      totally every stable sort returns the list computed here.\<close>
  "sort_reverse xs = rev (sort_stable (rev xs))"

definition id_key :: "string \<Rightarrow> string \<Rightarrow> string" where
  \<comment> \<open>\<^verbatim>\<open>f"{name}:{len(text)}"\<close>\<close>
  "id_key name doc = name @ '':'' @ digits10 (length doc)"

definition candidate_id :: "'g env \<Rightarrow> string \<Rightarrow> string \<Rightarrow> string" where
  \<comment> \<open>\<^verbatim>\<open>hashlib.sha1(f"{name}:{len(text)}".encode()).hexdigest()[:10]\<close>\<close>
  "candidate_id E name doc = slice_to (hexdigest (sha1 E (id_key name doc))) 10"

definition is_pdf :: "string \<Rightarrow> bool" where
  "is_pdf filename = endswith (lower filename) ''.pdf''"

definition candidate_name :: "string \<Rightarrow> string" where
  "candidate_name filename = splitext_root (basename filename)"

fun score_files ::
  "'g env \<Rightarrow> 'g world \<Rightarrow> string \<Rightarrow> (string \<times> bytes) list \<Rightarrow> candidate list
     \<Rightarrow> (failure + candidate list) \<times> 'g world" where
  \<comment> \<open>the loop of lines 198 to 222, with the results collected so far\<close>
  "score_files E w qualities_text [] results = (Inr results, w)"
| "score_files E w qualities_text ((filename, content) # files) results =
     (if \<not> is_pdf filename
      then (Inl (HTTPException 400 (''Only PDFs allowed: '' @ filename)), w)
      else
        (let name = candidate_name filename;
             doc = extract_pdf_text E content;
             w1 = w\<lparr>scorer_calls := scorer_calls w @ [name]\<rparr>
         in if USE_OPENAI E
            then
              (case openai_score_cv E w1 qualities_text doc name of
                 (Inl f, w2) \<Rightarrow> (Inl f, w2)
               | (Inr result, w2) \<Rightarrow>
                   score_files E w2 qualities_text files
                     (results @ [\<lparr>rec_id = candidate_id E name doc, rec_name = name,
                                   rec_score = score result, rec_url = None\<rparr>]))
            else
              (case mock_score_candidate E (rng w1) name qualities_text of
                 (Inl e, g) \<Rightarrow> (Inl Unhandled, w1\<lparr>rng := g\<rparr>)
               | (Inr x, g) \<Rightarrow>
                   score_files E (w1\<lparr>rng := g\<rparr>) qualities_text files
                     (results @ [\<lparr>rec_id = candidate_id E name doc, rec_name = name,
                                   rec_score = x, rec_url = None\<rparr>]))))"

definition normalize_qualities :: "string \<Rightarrow> string" where
  \<comment> \<open>lines 194 and 195\<close>
  "normalize_qualities qualities =
     (let qualities_list = map strip (filter (\<lambda>q. strip q \<noteq> []) (splitlines qualities))
      in if qualities_list \<noteq> [] then join [CHR 0x0A] (map (\<lambda>q. ''- '' @ q) qualities_list)
         else strip qualities)"

definition screen_candidates ::
  "'g env \<Rightarrow> 'g world \<Rightarrow> (string \<times> bytes) list \<Rightarrow> string
     \<Rightarrow> (failure + candidate list) \<times> 'g world" where
  "screen_candidates E w files qualities =
     (if files = [] then (Inl (HTTPException 400 ''No files uploaded.''), w)
      else if strip qualities = [] then (Inl (HTTPException 400 ''Qualities are required.''), w)
      else
        (case score_files E w (normalize_qualities qualities) files [] of
           (Inl f, w') \<Rightarrow> (Inl f, w')
         | (Inr results, w') \<Rightarrow> (Inr (sort_reverse results), w')))"

section \<open>Properties as predicates\<close>

definition two_decimals :: "rat \<Rightarrow> bool" where
  \<comment> \<open>the number has at most two decimal places\<close>
  "two_decimals q = (of_int \<lfloor>q * 100\<rfloor> = q * 100)"

definition model_replies :: "'g env \<Rightarrow> 'g world \<Rightarrow> string \<Rightarrow> string option \<Rightarrow> bool \<Rightarrow> bool" where
  \<comment> \<open>the service answers the next request with content c: at once when \<open>jm\<close> holds,
      and otherwise on the second attempt, after the SDK refused \<^verbatim>\<open>response_format\<close>\<close>
  "model_replies E w user c jm =
     (if jm then chat_completions_create E (requests w) True system_message user = Content c
      else chat_completions_create E (requests w) True system_message user = RaisesTypeError
         \<and> chat_completions_create E (requests w + 1) False system_message user = Content c)"

definition encloses :: "string \<Rightarrow> string \<Rightarrow> bool" where
  \<comment> \<open>the text j stands in s with no opening brace before it and no closing brace
      behind it\<close>
  "encloses j s = (\<exists>p q. s = p @ j @ q \<and> CHR ''{'' \<notin> set p \<and> CHR ''}'' \<notin> set q)"

section \<open>An environment to evaluate the model on\<close>

text \<open>
  A small instance of the environment. Its \<^verbatim>\<open>json.loads\<close> knows the objects listed
  below and raises on every other text; its service answers the requests in a fixed
  order; its digest and its generator are arbitrary simple functions.
\<close>

definition test_loads :: "string \<Rightarrow> json option" where
  "test_loads s =
     (if s = ''{\"score\": 77, \"reason\": \"strong match\"}''
      then Some (JDict [(''score'', JInt 77), (''reason'', JStr ''strong match'')])
      else if s = ''{\"score\": 40}'' then Some (JDict [(''score'', JInt 40)])
      else if s = ''{\"score\": 90}'' then Some (JDict [(''score'', JInt 90)])
      else if s = ''{\"score\": 250}'' then Some (JDict [(''score'', JInt 250)])
      else if s = ''{\"reason\": \"no score\"}'' then Some (JDict [(''reason'', JStr ''no score'')])
      else None)"

definition test_replies :: "string list" where
  "test_replies =
     [''{\"score\": 40}'',
      ''{\"score\": 90}'',
      ''I think this candidate is great'',
      ''{\"score\": 250}'',
      ''{\"reason\": \"no score\"}'']"

definition test_env :: "nat env" where
  "test_env =
     \<lparr>USE_OPENAI = True,
      OPENAI_API_KEY = Some ''sk-test'',
      chat_completions_create =
        (\<lambda>n jm sys user. if n < length test_replies then Content (Some (test_replies ! n)) else Raises),
      json_loads = test_loads,
      float_of_str = (\<lambda>s. None),
      str_of_json = (\<lambda>v. []),
      sha1 = (\<lambda>s. sum_list (map of_char s) * 2 ^ 124 + length s),
      init_by_array = (\<lambda>n. n),
      genrand_uint32 = (\<lambda>g. (word_of_nat (g * 2654435761), g + 1)),
      PdfReader_pages = (\<lambda>content. Some [Extracted (Some (map (\<lambda>b. char_of (unat b)) content))]),
      pdfminer_extract_text = None\<rparr>"

definition test_world :: "nat \<Rightarrow> nat world" where
  \<comment> \<open>the world after n requests\<close>
  "test_world n = \<lparr>rng = 0, requests = n, scorer_calls = []\<rparr>"

section \<open>Truncation\<close>

lemma slice_to_take: "0 \<le> j \<Longrightarrow> slice_to s j = take (nat j) s"
  by (auto simp: slice_to_def slice_def Let_def min_def)

lemma slice_from_neg:
  "0 < h \<Longrightarrow> h \<le> int (length s) \<Longrightarrow> slice_from s (- h) = drop (length s - nat h) s"
  by (auto simp: slice_from_def slice_def Let_def max_def nat_diff_distrib')

text \<open>
  C8, as the code has it. A text within the budget comes back unchanged. A longer text,
  for a budget of at least 2, comes back as its first \<open>max_chars // 2\<close> characters, the
  marker and its last \<open>max_chars // 2\<close> characters; the result is
  \<open>2 * (max_chars // 2) + 5\<close> characters long, which is more than the budget and at
  most the budget plus 5.
\<close>

theorem truncate_for_model_spec:
  "(int (length doc) \<le> m \<longrightarrow> truncate_for_model doc m = doc) \<and>
   (2 \<le> m \<and> m < int (length doc) \<longrightarrow>
      truncate_for_model doc m =
        take (nat (m div 2)) doc @ ''\<newline>...\<newline>'' @ drop (length doc - nat (m div 2)) doc
      \<and> int (length (truncate_for_model doc m)) = 2 * (m div 2) + 5
      \<and> m < int (length (truncate_for_model doc m))
      \<and> int (length (truncate_for_model doc m)) \<le> m + 5)"
proof (intro conjI impI)
  assume "int (length doc) \<le> m"
  then show "truncate_for_model doc m = doc"
    by (simp add: truncate_for_model_def)
next
  assume a: "2 \<le> m \<and> m < int (length doc)"
  then have h: "0 < m div 2" "m div 2 \<le> int (length doc)"
    by auto
  show eq: "truncate_for_model doc m =
      take (nat (m div 2)) doc @ ''\<newline>...\<newline>'' @ drop (length doc - nat (m div 2)) doc"
    using a h by (simp add: truncate_for_model_def Let_def slice_to_take slice_from_neg)
  have len: "int (length (truncate_for_model doc m)) = 2 * (m div 2) + 5"
    unfolding eq using a h by (simp add: min_def) linarith
  show "int (length (truncate_for_model doc m)) = 2 * (m div 2) + 5"
    by (rule len)
  show "m < int (length (truncate_for_model doc m))"
    unfolding len by linarith
  show "int (length (truncate_for_model doc m)) \<le> m + 5"
    unfolding len by linarith
qed

theorem truncate_for_model_spec_witness:
  "truncate_for_model ''abc'' 5 = ''abc'' \<and>
   truncate_for_model ''abcdefghijk'' 10 = ''abcde\<newline>...\<newline>ghijk'' \<and>
   length (truncate_for_model ''abcdefghijk'' 10) = 15"
  using truncate_for_model_spec [of "''abc''" 5]
    truncate_for_model_spec [of "''abcdefghijk''" 10]
  by simp

text \<open>
  An 11-character text and a budget of 10: the result has 15 characters, so it is not
  within the budget.
\<close>

theorem truncate_for_model_over_budget:
  "\<not> int (length (truncate_for_model ''abcdefghijk'' 10)) \<le> 10"
  by (simp add: truncate_for_model_def slice_to_def slice_from_def slice_def)

section \<open>The mock scorer is deterministic and bounded\<close>

lemma hex_value_hex_char: "hex_value (hex_char m) = Some (m mod 16)"
proof -
  have "m mod 16 < 16"
    by simp
  then show ?thesis
    by (auto simp: hex_char_def hex_value_def Let_def)
qed

lemma int16_from_append:
  "int16_from a (xs @ ys) = (case int16_from a xs of None \<Rightarrow> None | Some b \<Rightarrow> int16_from b ys)"
  by (induction xs arbitrary: a) (auto split: option.splits)

lemma int16_from_hex_digits: "int16_from a (hex_digits k d) = Some (a * 16 ^ k + d mod 16 ^ k)"
proof (induction k arbitrary: d)
  case 0
  then show ?case by simp
next
  case (Suc k)
  have "d mod (16 * 16 ^ k) = 16 * (d div 16 mod 16 ^ k) + d mod 16"
    by (simp add: mod_mult2_eq)
  then show ?case
    by (simp add: int16_from_append Suc hex_value_hex_char algebra_simps)
qed

lemma length_hex_digits: "length (hex_digits k d) = k"
  by (induction k arbitrary: d) auto

lemma int_base16_hexdigest: "int_base16 (hexdigest d) = Inr (d mod 2 ^ 160)"
proof -
  have "hexdigest d \<noteq> []"
    using length_hex_digits [of 40 d] by (auto simp: hexdigest_def)
  moreover have "(16::nat) ^ 40 = 2 ^ 160" by simp
  ultimately show ?thesis
    by (simp add: int_base16_def hexdigest_def int16_from_hex_digits del: power_numeral)
qed

lemma round_half_even_bounds:
  assumes "of_int lo \<le> y" and "y \<le> of_int hi"
  shows "lo \<le> round_half_even y \<and> round_half_even y \<le> hi"
proof -
  have lo: "lo \<le> \<lfloor>y\<rfloor>"
    using assms(1) by (simp add: le_floor_iff)
  have hi: "\<lfloor>y\<rfloor> \<le> hi"
    using assms(2) by (simp add: floor_le_iff)
  have up: "\<lfloor>y\<rfloor> + 1 \<le> hi" if "0 < y - of_int \<lfloor>y\<rfloor>"
  proof -
    have "of_int \<lfloor>y\<rfloor> < (of_int hi :: rat)"
      using that assms(2) by linarith
    then show ?thesis by simp
  qed
  show ?thesis
    unfolding round_half_even_def Let_def using lo hi up by auto
qed

lemma two_decimals_of_int: "two_decimals (of_int k / 100)"
  by (simp add: two_decimals_def)

lemma py_round2_Fin:
  assumes "of_int lo \<le> q * 100" and "q * 100 \<le> of_int hi"
  shows "\<exists>k. py_round2 (Fin q) = Fin (of_int k / 100) \<and> lo \<le> k \<and> k \<le> hi"
  using round_half_even_bounds [OF assms] by (simp add: py_round2_def)

lemma unat_drop_bit_less:
  fixes x :: "32 word"
  assumes "n \<le> 32"
  shows "unat (drop_bit n x) < 2 ^ (32 - n)"
proof -
  have "unat x < 2 ^ 32"
    using unsigned_less [of x] by simp
  then have "unat x div 2 ^ n < 2 ^ (32 - n)"
    using assms by (simp add: less_mult_imp_div_less power_add [symmetric])
  moreover have "unat (drop_bit n x) = drop_bit n (unat x)"
    by (rule unat_drop_bit_eq)
  moreover have "drop_bit n (unat x) = unat x div 2 ^ n"
    by (rule drop_bit_eq_div)
  ultimately show ?thesis
    by (simp only:)
qed

lemma random_random_range:
  "0 \<le> fst (random_random E g) \<and> fst (random_random E g) < 1"
proof -
  obtain x g1 where x: "genrand_uint32 E g = (x, g1)" by (cases "genrand_uint32 E g")
  obtain y g2 where y: "genrand_uint32 E g1 = (y, g2)" by (cases "genrand_uint32 E g1")
  define a where "a = unat (drop_bit 5 x)"
  define b where "b = unat (drop_bit 6 y)"
  have "a < 2 ^ 27" "b < 2 ^ 26"
    using unat_drop_bit_less [of 5 x] unat_drop_bit_less [of 6 y] by (simp_all add: a_def b_def)
  then have "a * 67108864 + b < 9007199254740992"
    by simp
  then have "(of_nat a * 67108864 + of_nat b :: rat) < 9007199254740992"
    by (metis (mono_tags) of_nat_less_iff of_nat_add of_nat_mult of_nat_numeral)
  moreover have "fst (random_random E g) = (of_nat a * 67108864 + of_nat b) / 9007199254740992"
    by (simp add: random_random_def x y a_def b_def)
  ultimately show ?thesis by simp
qed

lemma random_uniform_10_100:
  "\<exists>q. fst (random_uniform E g 10 100) = Fin q \<and> 10 \<le> q \<and> q < 100"
proof -
  obtain r g' where r: "random_random E g = (r, g')" by (cases "random_random E g")
  have "0 \<le> r \<and> r < 1"
    using random_random_range [of E g] by (simp add: r)
  then show ?thesis
    by (simp add: random_uniform_def r)
qed

lemma mock_score_candidate_eq:
  "mock_score_candidate E g name qualities =
     (let (x, g') = random_uniform E (init_by_array E (sha1 E (name @ '':'' @ qualities) mod 2 ^ 160)) 10 100
      in (Inr (py_round2 x), g'))"
  by (simp add: mock_score_candidate_def int_base16_hexdigest)

text \<open>
  C4. The mock scorer is a function of its two arguments: whatever state the global
  generator is in when it is called, the same name and qualities give the same score
  (and leave the generator in the same state), because the call seeds the generator anew.
\<close>

theorem mock_score_candidate_deterministic:
  "mock_score_candidate E g1 name qualities = mock_score_candidate E g2 name qualities"
  by (simp add: mock_score_candidate_eq)

lemma mock_score_candidate_value:
  "\<exists>q. fst (mock_score_candidate E g name qualities) = Inr (Fin q)
       \<and> 10 \<le> q \<and> q \<le> 100 \<and> two_decimals q"
proof -
  define s where "s = init_by_array E (sha1 E (name @ '':'' @ qualities) mod 2 ^ 160)"
  obtain q where q: "fst (random_uniform E s 10 100) = Fin q" "10 \<le> q" "q < 100"
    using random_uniform_10_100 [of E s] by blast
  have "of_int 1000 \<le> q * 100" "q * 100 \<le> of_int 10000"
    using q(2,3) by simp_all
  then obtain k where k: "py_round2 (Fin q) = Fin (of_int k / 100)" "1000 \<le> k" "k \<le> 10000"
    using py_round2_Fin by blast
  have "fst (mock_score_candidate E g name qualities) = Inr (py_round2 (Fin q))"
    using q(1) by (auto simp: mock_score_candidate_eq s_def split: prod.splits)
  then have "fst (mock_score_candidate E g name qualities) = Inr (Fin (of_int k / 100))"
    by (simp only: k(1))
  moreover have "(10::rat) \<le> of_int k / 100" "(of_int k / 100 :: rat) \<le> 100"
    using k(2,3) by simp_all
  moreover have "two_decimals (of_int k / 100)"
    by (rule two_decimals_of_int)
  ultimately show ?thesis
    by blast
qed

text \<open>
  C10. The mock scorer always returns a score, the score lies between 10 and 100, and
  it has at most two decimals.
\<close>

theorem mock_score_candidate_range:
  "\<exists>q. fst (mock_score_candidate E g name qualities) = Inr (Fin q)
       \<and> 10 \<le> q \<and> q \<le> 100 \<and> two_decimals q"
  by (rule mock_score_candidate_value)

section \<open>The external-model scorer clamps and recovers\<close>

lemma two_decimals_0_100: "two_decimals 0" "two_decimals 100"
  by (simp_all add: two_decimals_def)

lemma clamp_score_range:
  "\<exists>q. clamp_score x = Fin q \<and> 0 \<le> q \<and> q \<le> 100 \<and> two_decimals q"
proof (cases x)
  case (Fin r)
  define k where "k = round_half_even (r * 100)"
  define y :: rat where "y = of_int k / 100"
  have r: "py_round2 x = Fin y"
    by (simp add: Fin py_round2_def k_def y_def)
  have y: "two_decimals y"
    unfolding y_def by (rule two_decimals_of_int)
  show ?thesis
    using y two_decimals_0_100 by (auto simp: clamp_score_def r py_min_def py_max_def)
qed (simp_all add: clamp_score_def py_round2_def py_min_def py_max_def two_decimals_0_100)

lemma clamp_score_50: "clamp_score (Fin 50) = Fin 50"
  by (simp add: clamp_score_def py_round2_def round_half_even_def py_min_def py_max_def)

lemma ask_model_replies:
  assumes "model_replies E w user c jm"
  shows "ask_model E w user =
    (Inr (strip (or_empty c), jm), w\<lparr>requests := requests w + (if jm then 1 else 2)\<rparr>)"
  using assms by (cases jm) (simp_all add: model_replies_def ask_model_def Let_def)

lemma openai_score_cv_replies:
  assumes "client E" and "model_replies E w (user_message qualities_text cv_text name) c jm"
  shows "openai_score_cv E w qualities_text cv_text name =
    (let (x, r) = (case parse_reply E (strip (or_empty c)) of
                     Inl e \<Rightarrow> (Fin 50, ''Parse error; defaulted to 50.'')
                   | Inr p \<Rightarrow> p)
     in (Inr \<lparr>score = clamp_score x, reason = r, json_mode = jm\<rparr>,
         w\<lparr>requests := requests w + (if jm then 1 else 2)\<rparr>))"
proof -
  have "truthy (OPENAI_API_KEY E)"
    using assms(1) by (simp add: client_def)
  then show ?thesis
    using assms(1) by (simp add: openai_score_cv_def ask_model_replies [OF assms(2)])
qed

text \<open>
  C1. Whenever the service answers, with any content at all and in either mode, the
  scorer returns a result, and its score is a finite number between 0 and 100 with at
  most two decimals. The parser, the conversion to a float and the content are arbitrary:
  a missing score, a score out of range, an infinity and NaN are all covered.
\<close>

theorem openai_score_cv_range:
  assumes "client E" and "model_replies E w (user_message qualities_text cv_text name) c jm"
  shows "\<exists>r q. fst (openai_score_cv E w qualities_text cv_text name) = Inr r
           \<and> score r = Fin q \<and> 0 \<le> q \<and> q \<le> 100 \<and> two_decimals q"
proof -
  obtain x t where xt:
    "(case parse_reply E (strip (or_empty c)) of
        Inl e \<Rightarrow> (Fin 50, ''Parse error; defaulted to 50.'') | Inr p \<Rightarrow> p) = (x, t)"
    by (cases "case parse_reply E (strip (or_empty c)) of
        Inl e \<Rightarrow> (Fin 50, ''Parse error; defaulted to 50.'') | Inr p \<Rightarrow> p")
  obtain q where q: "clamp_score x = Fin q" "0 \<le> q" "q \<le> 100" "two_decimals q"
    using clamp_score_range by blast
  have "fst (openai_score_cv E w qualities_text cv_text name) =
      Inr \<lparr>score = clamp_score x, reason = t, json_mode = jm\<rparr>"
    by (simp add: openai_score_cv_replies [OF assms] xt)
  then show ?thesis
    using q by simp
qed

lemmas str_eval = strip_def lstrip_def rstrip_def py_isspace_def startswith_def fence_def
  rfind_char_def json_text_def slice_def or_empty_def

lemmas test_eval = test_env_def test_loads_def test_world_def test_replies_def

lemma test_client: "client test_env"
  by (simp add: client_def test_env_def truthy_def)

lemma test_model_replies:
  "n < length test_replies \<Longrightarrow>
     model_replies test_env (test_world n) user (Some (test_replies ! n)) True"
  by (simp add: model_replies_def test_env_def test_world_def)


theorem openai_score_cv_range_witness:
  "client test_env
   \<and> model_replies test_env (test_world 3) (user_message ''- sql'' ''cv'' ''bob'')
       (Some ''{\"score\": 250}'') True
   \<and> (\<exists>r q. fst (openai_score_cv test_env (test_world 3) ''- sql'' ''cv'' ''bob'') = Inr r
         \<and> score r = Fin q \<and> 0 \<le> q \<and> q \<le> 100 \<and> two_decimals q)
   \<and> fst (openai_score_cv test_env (test_world 3) ''- sql'' ''cv'' ''bob'')
       = Inr \<lparr>score = Fin 100, reason = [], json_mode = True\<rparr>
   \<and> fst (openai_score_cv test_env (test_world 4) ''- sql'' ''cv'' ''bob'')
       = Inr \<lparr>score = Fin 50, reason = ''no score'', json_mode = True\<rparr>"
proof -
  let ?u = "user_message ''- sql'' ''cv'' ''bob''"
  have h2: "model_replies test_env (test_world 3) ?u (Some ''{\"score\": 250}'') True"
    using test_model_replies [of 3 ?u] by (simp add: test_replies_def)
  have h3: "model_replies test_env (test_world 4) ?u (Some ''{\"reason\": \"no score\"}'') True"
    using test_model_replies [of 4 ?u] by (simp add: test_replies_def)
  have p1: "parse_reply test_env (strip (or_empty (Some ''{\"score\": 250}''))) = Inr (Fin 250, [])"
    by (simp add: parse_reply_def coerce_json_from_model_def str_eval test_eval py_str_def)
  have p2: "parse_reply test_env (strip (or_empty (Some ''{\"reason\": \"no score\"}'')))
      = Inr (Fin 50, ''no score'')"
    by (simp add: parse_reply_def coerce_json_from_model_def str_eval test_eval py_str_def)
  have c1: "clamp_score (Fin 250) = Fin 100"
    by (simp add: clamp_score_def py_round2_def round_half_even_def py_min_def py_max_def)
  have e1: "fst (openai_score_cv test_env (test_world 3) ''- sql'' ''cv'' ''bob'')
       = Inr \<lparr>score = Fin 100, reason = [], json_mode = True\<rparr>"
    by (simp add: openai_score_cv_replies [OF test_client h2] p1 c1)
  have e2: "fst (openai_score_cv test_env (test_world 4) ''- sql'' ''cv'' ''bob'')
       = Inr \<lparr>score = Fin 50, reason = ''no score'', json_mode = True\<rparr>"
    by (simp add: openai_score_cv_replies [OF test_client h3] p2 clamp_score_50)
  show ?thesis
    using test_client h2 e1 e2 openai_score_cv_range [OF test_client h2] by blast
qed



section \<open>Fences and prose around a JSON object\<close>

lemma encloses_drop_prefix:
  assumes "encloses (CHR ''{'' # j) (r @ s)" and "CHR ''{'' \<notin> set r"
  shows "encloses (CHR ''{'' # j) s"
proof -
  obtain p q where pq: "r @ s = p @ (CHR ''{'' # j) @ q" "CHR ''{'' \<notin> set p" "CHR ''}'' \<notin> set q"
    using assms(1) unfolding encloses_def by blast
  from pq(1) consider u where "r = p @ u" "u @ s = (CHR ''{'' # j) @ q"
    | u where "r @ u = p" "s = u @ (CHR ''{'' # j) @ q"
    by (auto simp: append_eq_append_conv2)
  then show ?thesis
  proof cases
    case 1
    have "u = []"
    proof (cases u)
      case (Cons a v)
      then have "a = CHR ''{''" using 1(2) by simp
      then show ?thesis using 1(1) Cons assms(2) by simp
    qed simp
    then have "s = [] @ (CHR ''{'' # j) @ q" using 1(2) by simp
    then show ?thesis unfolding encloses_def using pq(3) by (metis empty_iff empty_set)
  next
    case 2
    have "CHR ''{'' \<notin> set u" using 2(1) pq(2) by auto
    then show ?thesis unfolding encloses_def using 2(2) pq(3) by blast
  qed
qed

lemma encloses_drop_suffix:
  assumes "encloses (j @ [CHR ''}'']) (s @ r)" and "CHR ''}'' \<notin> set r"
  shows "encloses (j @ [CHR ''}'']) s"
proof -
  obtain p q where pq: "s @ r = p @ (j @ [CHR ''}'']) @ q" "CHR ''{'' \<notin> set p" "CHR ''}'' \<notin> set q"
    using assms(1) unfolding encloses_def by blast
  define m where "m = p @ j @ [CHR ''}'']"
  have m: "m \<noteq> []" "last m = CHR ''}''"
    by (simp_all add: m_def)
  have "s @ r = m @ q"
    using pq(1) by (simp add: m_def)
  then consider u where "s = m @ u" "u @ r = q" | u where "s @ u = m" "r = u @ q"
    by (auto simp: append_eq_append_conv2)
  then show ?thesis
  proof cases
    case 1
    have "CHR ''}'' \<notin> set u" using 1(2) pq(3) by auto
    moreover have "s = p @ (j @ [CHR ''}'']) @ u" using 1(1) by (simp add: m_def)
    ultimately show ?thesis unfolding encloses_def using pq(2) by blast
  next
    case 2
    have "u = []"
    proof (rule ccontr)
      assume u: "u \<noteq> []"
      then have "last u = last (s @ u)" by simp
      also have "\<dots> = CHR ''}''" using 2(1) m(2) by simp
      finally have "CHR ''}'' \<in> set u" using u last_in_set by metis
      then show False using 2(2) assms(2) by simp
    qed
    then have "s = p @ (j @ [CHR ''}'']) @ []" using 2(1) by (simp add: m_def)
    then show ?thesis unfolding encloses_def using pq(2) by (metis empty_iff empty_set)
  qed
qed

lemma encloses_append:
  "encloses j s \<Longrightarrow> CHR ''}'' \<notin> set r \<Longrightarrow> encloses j (s @ r)"
  unfolding encloses_def by (metis Un_iff append.assoc set_append)

lemma encloses_dropWhile:
  assumes "encloses (CHR ''{'' # j) s" and "\<not> P (CHR ''{'')"
  shows "encloses (CHR ''{'' # j) (dropWhile P s)"
proof -
  have "CHR ''{'' \<notin> set (takeWhile P s)"
    using assms(2) by (meson set_takeWhileD)
  then show ?thesis
    using encloses_drop_prefix [of j "takeWhile P s" "dropWhile P s"] assms(1) by simp
qed

lemma rstrip_decomp: "s = rstrip s @ rev (takeWhile py_isspace (rev s))"
  unfolding rstrip_def by (metis rev_append rev_rev_ident takeWhile_dropWhile_id)

lemma not_space_braces: "\<not> py_isspace (CHR ''{'')" "\<not> py_isspace (CHR ''}'')"
  "\<not> re_word_or_hyphen (CHR ''{'')"
  by (simp_all add: py_isspace_def re_word_or_hyphen_def py_isalnum_def)

lemma encloses_rstrip:
  assumes "encloses (j @ [CHR ''}'']) s"
  shows "encloses (j @ [CHR ''}'']) (rstrip s)"
proof -
  have "CHR ''}'' \<notin> set (rev (takeWhile py_isspace (rev s)))"
    using not_space_braces(2) by (metis set_rev set_takeWhileD)
  then show ?thesis
    using encloses_drop_suffix [of j "rstrip s" "rev (takeWhile py_isspace (rev s))"]
      assms rstrip_decomp [of s] by simp
qed

lemma encloses_strip:
  assumes "encloses (CHR ''{'' # b @ [CHR ''}'']) s"
  shows "encloses (CHR ''{'' # b @ [CHR ''}'']) (strip s)"
proof -
  have "encloses (CHR ''{'' # b @ [CHR ''}'']) (lstrip s)"
    unfolding lstrip_def using assms not_space_braces(1) by (rule encloses_dropWhile)
  then show ?thesis
    unfolding strip_def using encloses_rstrip [of "CHR ''{'' # b" "lstrip s"] by simp
qed

lemma encloses_sub_opening_fence:
  assumes "encloses (CHR ''{'' # j) s"
  shows "encloses (CHR ''{'' # j) (sub_opening_fence s)"
proof (cases "startswith s fence")
  case True
  then have "s = fence @ drop 3 s"
    by (metis append_take_drop_id fence_def length_Cons list.size(3) numeral_3_eq_3 startswith_def)
  moreover have "CHR ''{'' \<notin> set fence"
    by (simp add: fence_def)
  ultimately have "encloses (CHR ''{'' # j) (drop 3 s)"
    using encloses_drop_prefix [of j fence "drop 3 s"] assms by simp
  then show ?thesis
    using True not_space_braces by (simp add: sub_opening_fence_def encloses_dropWhile)
next
  case False
  then show ?thesis using assms by (simp add: sub_opening_fence_def)
qed

lemma endswith_decomp: "endswith s p \<Longrightarrow> s = take (length s - length p) s @ p"
  by (metis append_take_drop_id endswith_def)

lemma encloses_sub_closing_fence:
  assumes "encloses (j @ [CHR ''}'']) s"
  shows "encloses (j @ [CHR ''}'']) (sub_closing_fence s)"
proof -
  have a: "encloses (j @ [CHR ''}'']) (rstrip (take (length s - k) s))"
    if "endswith s p" "CHR ''}'' \<notin> set p" "length p = k" for p k
    using encloses_drop_suffix [of j "take (length s - k) s" p] assms
      endswith_decomp [OF that(1)] that(2,3) encloses_rstrip by simp
  show ?thesis
  proof (cases "endswith s fence")
    case True
    then show ?thesis
      using a [of fence 3] by (simp add: sub_closing_fence_def fence_def)
  next
    case False
    show ?thesis
    proof (cases "endswith s (fence @ [CHR 0x0A])")
      case True
      then have "encloses (j @ [CHR ''}'']) (rstrip (take (length s - 4) s))"
        using a [of "fence @ [CHR 0x0A]" 4] by (simp add: fence_def)
      then show ?thesis
        using True False by (simp add: sub_closing_fence_def encloses_append)
    next
      case no: False
      then show ?thesis using False assms by (simp add: sub_closing_fence_def)
    qed
  qed
qed

lemma find_char_append:
  "c \<notin> set p \<Longrightarrow> find_char c (p @ c # xs) = int (length p)"
  by (induction p) (auto simp: Let_def)

lemma slice_middle: "slice (p @ j @ q) (int (length p)) (int (length p) + int (length j)) = j"
  by (simp add: slice_def min_def)

lemma encloses_slice:
  assumes "encloses (CHR ''{'' # b @ [CHR ''}'']) s"
  shows "find_char (CHR ''{'') s \<noteq> -1 \<and> rfind_char (CHR ''}'') s \<noteq> -1
    \<and> find_char (CHR ''{'') s < rfind_char (CHR ''}'') s
    \<and> slice s (find_char (CHR ''{'') s) (rfind_char (CHR ''}'') s + 1) = CHR ''{'' # b @ [CHR ''}'']"
proof -
  obtain p q where pq: "s = p @ (CHR ''{'' # b @ [CHR ''}'']) @ q"
      "CHR ''{'' \<notin> set p" "CHR ''}'' \<notin> set q"
    using assms unfolding encloses_def by blast
  have f: "find_char (CHR ''{'') s = int (length p)"
    using find_char_append [OF pq(2)] pq(1) by simp
  have "rev s = rev q @ CHR ''}'' # (rev b @ CHR ''{'' # rev p)"
    using pq(1) by simp
  then have "find_char (CHR ''}'') (rev s) = int (length q)"
    using find_char_append [of "CHR ''}''" "rev q"] pq(3) by simp
  then have r: "rfind_char (CHR ''}'') s = int (length p) + int (length b) + 1"
    using pq(1) by (simp add: rfind_char_def)
  have "slice s (int (length p)) (int (length p) + int (length b) + 1 + 1)
      = CHR ''{'' # b @ [CHR ''}'']"
    using slice_middle [of p "CHR ''{'' # b @ [CHR ''}'']" q] pq(1) by (simp add: add.commute add.left_commute)
  then show ?thesis
    by (simp add: f r)
qed

lemma json_text_encloses:
  assumes "encloses (CHR ''{'' # b @ [CHR ''}'']) raw"
  shows "json_text raw = CHR ''{'' # b @ [CHR ''}'']"
proof -
  let ?j = "CHR ''{'' # b @ [CHR ''}'']"
  define s where "s = strip raw"
  define t where "t = (if startswith s fence then sub_closing_fence (sub_opening_fence s) else s)"
  have s: "encloses ?j s"
    unfolding s_def using assms by (rule encloses_strip)
  have "encloses ?j (sub_closing_fence (sub_opening_fence s))"
    using encloses_sub_closing_fence [of "CHR ''{'' # b" "sub_opening_fence s"]
      encloses_sub_opening_fence [of "b @ [CHR ''}'']" s] s by simp
  then have "encloses ?j t"
    using s by (simp add: t_def)
  then have "(if find_char (CHR ''{'') t \<noteq> -1 \<and> rfind_char (CHR ''}'') t \<noteq> -1
        \<and> rfind_char (CHR ''}'') t > find_char (CHR ''{'') t
      then slice t (find_char (CHR ''{'') t) (rfind_char (CHR ''}'') t + 1) else t) = ?j"
    using encloses_slice [of b t] by simp
  moreover have "json_text raw =
     (if find_char (CHR ''{'') t \<noteq> -1 \<and> rfind_char (CHR ''}'') t \<noteq> -1
        \<and> rfind_char (CHR ''}'') t > find_char (CHR ''{'') t
      then slice t (find_char (CHR ''{'') t) (rfind_char (CHR ''}'') t + 1) else t)"
    unfolding json_text_def Let_def t_def s_def by (rule refl)
  ultimately show ?thesis
    by simp
qed

lemma json_text_around:
  assumes "CHR ''{'' \<notin> set pre" and "CHR ''}'' \<notin> set post"
  shows "json_text (pre @ CHR ''{'' # body @ [CHR ''}''] @ post) = CHR ''{'' # body @ [CHR ''}'']"
proof -
  have "encloses (CHR ''{'' # body @ [CHR ''}'']) (pre @ (CHR ''{'' # body @ [CHR ''}'']) @ post)"
    unfolding encloses_def using assms by blast
  then show ?thesis
    using json_text_encloses by simp
qed

text \<open>
  C6. A JSON object between an opening fence, with or without a language tag, and a
  closing fence is recovered: the parser is given exactly the text of the object, so the
  result is the object it parses to. The tag may be any text without an opening brace.
\<close>

theorem coerce_json_from_model_fenced:
  assumes "CHR ''{'' \<notin> set tag"
    and "json_loads E (CHR ''{'' # body @ [CHR ''}'']) = Some obj"
  shows "coerce_json_from_model E
      (fence @ tag @ [CHR 0x0A] @ CHR ''{'' # body @ [CHR ''}''] @ [CHR 0x0A] @ fence) = Inr obj"
proof -
  have "CHR ''{'' \<notin> set (fence @ tag @ [CHR 0x0A])" "CHR ''}'' \<notin> set ([CHR 0x0A] @ fence)"
    using assms(1) by (simp_all add: fence_def)
  then have "json_text ((fence @ tag @ [CHR 0x0A]) @ CHR ''{'' # body @ [CHR ''}''] @ ([CHR 0x0A] @ fence))
      = CHR ''{'' # body @ [CHR ''}'']"
    by (rule json_text_around)
  then show ?thesis
    by (simp add: coerce_json_from_model_def assms(2))
qed

theorem coerce_json_from_model_fenced_witness:
  "CHR ''{'' \<notin> set ''json''
   \<and> json_loads test_env ''{\"score\": 77, \"reason\": \"strong match\"}''
     = Some (JDict [(''score'', JInt 77), (''reason'', JStr ''strong match'')])
   \<and> coerce_json_from_model test_env
       (fence @ ''json\<newline>{\"score\": 77, \"reason\": \"strong match\"}\<newline>'' @ fence)
     = Inr (JDict [(''score'', JInt 77), (''reason'', JStr ''strong match'')])
   \<and> coerce_json_from_model test_env
       (fence @ ''\<newline>{\"score\": 77, \"reason\": \"strong match\"}\<newline>'' @ fence)
     = Inr (JDict [(''score'', JInt 77), (''reason'', JStr ''strong match'')])"
proof -
  let ?obj = "JDict [(''score'', JInt 77), (''reason'', JStr ''strong match'')]"
  have h1: "CHR ''{'' \<notin> set ''json''" and h0: "CHR ''{'' \<notin> set []"
    by simp_all
  have h2: "json_loads test_env (CHR ''{'' # ''\"score\": 77, \"reason\": \"strong match\"'' @ [CHR ''}''])
      = Some ?obj"
    by (simp add: test_eval)
  show ?thesis
    using h1 h2 coerce_json_from_model_fenced [OF h1 h2] coerce_json_from_model_fenced [OF h0 h2]
    by simp
qed

text \<open>
  The text handed to the parser runs from the first opening brace to the last closing
  brace of the reply (after the fences are removed); no braces are balanced. So a JSON
  object with prose around it is recovered when the prose before it has no opening brace
  and the prose behind it has no closing brace.
\<close>

lemma coerce_json_from_model_prose:
  assumes "CHR ''{'' \<notin> set pre" and "CHR ''}'' \<notin> set post"
    and "json_loads E (CHR ''{'' # body @ [CHR ''}'']) = Some obj"
  shows "json_text (pre @ CHR ''{'' # body @ [CHR ''}''] @ post) = CHR ''{'' # body @ [CHR ''}'']
    \<and> coerce_json_from_model E (pre @ CHR ''{'' # body @ [CHR ''}''] @ post) = Inr obj"
  using json_text_around [OF assms(1,2), of body] assms(3)
  by (simp add: coerce_json_from_model_def)

lemma coerce_json_from_model_prose_example:
  "CHR ''{'' \<notin> set ''Here is my verdict: '' \<and> CHR ''}'' \<notin> set '' Thanks.''
   \<and> json_loads test_env ''{\"score\": 90}'' = Some (JDict [(''score'', JInt 90)])
   \<and> json_text ''Here is my verdict: {\"score\": 90} Thanks.'' = ''{\"score\": 90}''
   \<and> coerce_json_from_model test_env ''Here is my verdict: {\"score\": 90} Thanks.''
     = Inr (JDict [(''score'', JInt 90)])"
proof -
  have h1: "CHR ''{'' \<notin> set ''Here is my verdict: ''" and h2: "CHR ''}'' \<notin> set '' Thanks.''"
    by simp_all
  have h3: "json_loads test_env (CHR ''{'' # ''\"score\": 90'' @ [CHR ''}''])
      = Some (JDict [(''score'', JInt 90)])"
    by (simp add: test_eval)
  show ?thesis
    using h1 h2 h3 coerce_json_from_model_prose [OF h1 h2 h3] by simp
qed

text \<open>
  C7. The docstring of \<^verbatim>\<open>coerce_json_from_model\<close> promises the first \<^verbatim>\<open>{...}\<close> block of
  the reply. For a reply with one JSON object and braces in the prose behind it, the code
  hands the parser the text from the first opening brace to the last closing brace. That
  text is not the first block, the parser raises on it, and the object is not recovered.
\<close>

theorem coerce_json_from_model_prose_braces:
  "json_loads test_env ''{\"score\": 90}'' = Some (JDict [(''score'', JInt 90)])
   \<and> json_text ''Result: {\"score\": 90} (fit: {high})'' = ''{\"score\": 90} (fit: {high}''
   \<and> coerce_json_from_model test_env ''Result: {\"score\": 90} (fit: {high})''
     = Inl JSONDecodeError"
  by (simp add: coerce_json_from_model_def str_eval test_eval)

section \<open>Properties of the request handler\<close>

lemma ask_model_world:
  "scorer_calls (snd (ask_model E w u)) = scorer_calls w
   \<and> (case fst (ask_model E w u) of Inl f \<Rightarrow> f = Unhandled | Inr p \<Rightarrow> True)"
  by (simp add: ask_model_def Let_def split: chat_reply.splits)

lemma openai_score_cv_cases:
  obtains (fails) f w' where "openai_score_cv E w qt doc name = (Inl f, w')"
      "status_code f = 500" "scorer_calls w' = scorer_calls w"
  | (returns) r q w' where "openai_score_cv E w qt doc name = (Inr r, w')"
      "score r = Fin q" "0 \<le> q" "q \<le> 100" "two_decimals q" "scorer_calls w' = scorer_calls w"
proof (cases "client E \<and> truthy (OPENAI_API_KEY E)")
  case False
  then have "openai_score_cv E w qt doc name
      = (Inl (HTTPException 500 ''OpenAI client not initialized.''), w)
    \<or> openai_score_cv E w qt doc name
      = (Inl (HTTPException 500 ''OPENAI_API_KEY not set on server.''), w)"
    by (auto simp: openai_score_cv_def)
  then show ?thesis
    using fails by fastforce
next
  case True
  obtain res w' where a: "ask_model E w (user_message qt doc name) = (res, w')"
    by (cases "ask_model E w (user_message qt doc name)")
  have w': "scorer_calls w' = scorer_calls w"
    using ask_model_world [of E w "user_message qt doc name"] a by simp
  show ?thesis
  proof (cases res)
    case (Inl f)
    then have "f = Unhandled"
      using ask_model_world [of E w "user_message qt doc name"] a by simp
    then have "openai_score_cv E w qt doc name = (Inl Unhandled, w')"
      using True a Inl by (simp add: openai_score_cv_def)
    then show ?thesis
      using fails w' by fastforce
  next
    case (Inr p)
    obtain raw jm where p: "p = (raw, jm)" by (cases p)
    obtain x t where xt:
      "(case parse_reply E raw of
          Inl e \<Rightarrow> (Fin 50, ''Parse error; defaulted to 50.'') | Inr p \<Rightarrow> p) = (x, t)"
      by (cases "case parse_reply E raw of
          Inl e \<Rightarrow> (Fin 50, ''Parse error; defaulted to 50.'') | Inr p \<Rightarrow> p")
    obtain q where q: "clamp_score x = Fin q" "0 \<le> q" "q \<le> 100" "two_decimals q"
      using clamp_score_range by blast
    have "openai_score_cv E w qt doc name
        = (Inr \<lparr>score = clamp_score x, reason = t, json_mode = jm\<rparr>, w')"
      using True a Inr p xt by (simp add: openai_score_cv_def)
    then show ?thesis
      using returns [of "\<lparr>score = clamp_score x, reason = t, json_mode = jm\<rparr>" w' q] q w'
      by simp
  qed
qed

lemma mock_score_candidate_cases:
  obtains q g' where "mock_score_candidate E g name qt = (Inr (Fin q), g')"
    "10 \<le> q" "q \<le> 100" "two_decimals q"
proof -
  obtain q where "fst (mock_score_candidate E g name qt) = Inr (Fin q)"
      "10 \<le> q" "q \<le> 100" "two_decimals q"
    using mock_score_candidate_value [of E g name qt] by blast
  then show ?thesis
    using that by (cases "mock_score_candidate E g name qt") auto
qed

lemma score_files_prefix:
  assumes "\<not> is_pdf bad"
  shows "score_files E w qt (pre @ (bad, content) # rest) results =
    (case score_files E w qt pre results of
       (Inl e, w') \<Rightarrow> (Inl e, w')
     | (Inr rs, w') \<Rightarrow> (Inl (HTTPException 400 (''Only PDFs allowed: '' @ bad)), w'))"
proof (induction pre arbitrary: w results)
  case Nil
  show ?case
    using assms by simp
next
  case (Cons upload pre)
  obtain fn c where upload: "upload = (fn, c)" by (cases upload)
  show ?case
    by (simp add: upload Let_def Cons.IH split: prod.splits sum.splits)
qed

lemma score_files_fails:
  assumes "list_all (\<lambda>f. is_pdf (fst f)) pre"
    and "score_files E w qt pre results = (Inl e, w')"
  shows "status_code e = 500 \<and> USE_OPENAI E
    \<and> (\<exists>k. 0 < k \<and> k \<le> length pre
          \<and> scorer_calls w' = scorer_calls w @ map (\<lambda>f. candidate_name (fst f)) (take k pre))"
  using assms
proof (induction pre arbitrary: w results)
  case Nil
  then show ?case by simp
next
  case (Cons upload pre)
  obtain fn c where upload: "upload = (fn, c)" by (cases upload)
  have pdf: "is_pdf fn" and rest: "list_all (\<lambda>f. is_pdf (fst f)) pre"
    using Cons.prems(1) by (simp_all add: upload)
  define name where "name = candidate_name fn"
  define doc where "doc = extract_pdf_text E c"
  define w1 where "w1 = w\<lparr>scorer_calls := scorer_calls w @ [name]\<rparr>"
  have later: ?case
    if run: "score_files E w2 qt pre rs = (Inl e, w')"
      and w2: "scorer_calls w2 = scorer_calls w @ [name]" for w2 rs
  proof -
    obtain k where k: "status_code e = 500" "USE_OPENAI E" "0 < k" "k \<le> length pre"
        "scorer_calls w' = scorer_calls w2 @ map (\<lambda>f. candidate_name (fst f)) (take k pre)"
      using Cons.IH [OF rest run] by blast
    have "scorer_calls w' = scorer_calls w @ map (\<lambda>f. candidate_name (fst f)) (take (Suc k) (upload # pre))"
      using k(5) w2 by (simp add: upload name_def)
    then show ?thesis
      using k(1-4) by (intro conjI exI [of _ "Suc k"]) simp_all
  qed
  show ?case
  proof (cases "USE_OPENAI E")
    case True
    show ?thesis
    proof (cases rule: openai_score_cv_cases [of E w1 qt doc name])
      case (fails f w3)
      have "score_files E w qt (upload # pre) results = (Inl f, w3)"
        using pdf True fails(1)
        by (simp add: upload Let_def name_def [symmetric] doc_def [symmetric] w1_def [symmetric])
      then have "e = f" "w' = w3"
        using Cons.prems(2) by simp_all
      moreover have "scorer_calls w3 = scorer_calls w @ map (\<lambda>f. candidate_name (fst f)) (take 1 (upload # pre))"
        using fails(3) by (simp add: w1_def upload name_def)
      ultimately show ?thesis
        using fails(2) True by (intro conjI exI [of _ 1]) simp_all
    next
      case (returns r q w2)
      have "score_files E w qt (upload # pre) results
          = score_files E w2 qt pre
              (results @ [\<lparr>rec_id = candidate_id E name doc, rec_name = name,
                            rec_score = score r, rec_url = None\<rparr>])"
        using pdf True returns(1)
        by (simp add: upload Let_def name_def [symmetric] doc_def [symmetric] w1_def [symmetric])
      then show ?thesis
        using later [of w2] Cons.prems(2) returns(6) by (simp add: w1_def)
    qed
  next
    case False
    obtain q g where m: "mock_score_candidate E (rng w) name qt = (Inr (Fin q), g)"
      using mock_score_candidate_cases [of E "rng w" name qt] by blast
    have "score_files E w qt (upload # pre) results
        = score_files E (w1\<lparr>rng := g\<rparr>) qt pre
            (results @ [\<lparr>rec_id = candidate_id E name doc, rec_name = name,
                          rec_score = Fin q, rec_url = None\<rparr>])"
      using pdf False m
      by (simp add: upload Let_def name_def [symmetric] doc_def [symmetric] w1_def)
    then show ?thesis
      using later [of "w1\<lparr>rng := g\<rparr>"] Cons.prems(2) by (simp add: w1_def)
  qed
qed

lemma score_files_returns:
  assumes "score_files E w qt files results = (Inr rs, w')"
  shows "\<exists>new. rs = results @ new
    \<and> map rec_id new
      = map (\<lambda>f. candidate_id E (candidate_name (fst f)) (extract_pdf_text E (snd f))) files
    \<and> map rec_name new = map (\<lambda>f. candidate_name (fst f)) files
    \<and> list_all (\<lambda>r. \<exists>q. rec_score r = Fin q \<and> 0 \<le> q \<and> q \<le> 100 \<and> two_decimals q) new
    \<and> list_all (\<lambda>f. is_pdf (fst f)) files
    \<and> scorer_calls w' = scorer_calls w @ map (\<lambda>f. candidate_name (fst f)) files"
  using assms
proof (induction files arbitrary: w results)
  case Nil
  then show ?case by simp
next
  case (Cons upload files)
  obtain fn c where upload: "upload = (fn, c)" by (cases upload)
  define name where "name = candidate_name fn"
  define doc where "doc = extract_pdf_text E c"
  define w1 where "w1 = w\<lparr>scorer_calls := scorer_calls w @ [name]\<rparr>"
  have pdf: "is_pdf fn"
    using Cons.prems by (auto simp: upload split: if_splits)
  have step: ?case
    if run: "score_files E w2 qt files (results @ [x]) = (Inr rs, w')"
      and x: "rec_id x = candidate_id E name doc" "rec_name x = name"
        "rec_score x = Fin q" "0 \<le> q" "q \<le> 100" "two_decimals q"
      and w2: "scorer_calls w2 = scorer_calls w @ [name]" for w2 x q
  proof -
    obtain new where new: "rs = (results @ [x]) @ new"
        "map rec_id new
          = map (\<lambda>f. candidate_id E (candidate_name (fst f)) (extract_pdf_text E (snd f))) files"
        "map rec_name new = map (\<lambda>f. candidate_name (fst f)) files"
        "list_all (\<lambda>r. \<exists>q. rec_score r = Fin q \<and> 0 \<le> q \<and> q \<le> 100 \<and> two_decimals q) new"
        "list_all (\<lambda>f. is_pdf (fst f)) files"
        "scorer_calls w' = scorer_calls w2 @ map (\<lambda>f. candidate_name (fst f)) files"
      using Cons.IH [OF run] by blast
    show ?thesis
      using new x w2 pdf
      by (intro exI [of _ "x # new"]) (simp add: upload name_def doc_def)
  qed
  show ?case
  proof (cases "USE_OPENAI E")
    case True
    show ?thesis
    proof (cases rule: openai_score_cv_cases [of E w1 qt doc name])
      case (fails f w3)
      have "score_files E w qt (upload # files) results = (Inl f, w3)"
        using pdf True fails(1)
        by (simp add: upload Let_def name_def [symmetric] doc_def [symmetric] w1_def [symmetric])
      then show ?thesis
        using Cons.prems by simp
    next
      case (returns r q w2)
      let ?x = "\<lparr>rec_id = candidate_id E name doc, rec_name = name,
                  rec_score = score r, rec_url = None\<rparr>"
      have "score_files E w qt (upload # files) results
          = score_files E w2 qt files (results @ [?x])"
        using pdf True returns(1)
        by (simp add: upload Let_def name_def [symmetric] doc_def [symmetric] w1_def [symmetric])
      then have "score_files E w2 qt files (results @ [?x]) = (Inr rs, w')"
        using Cons.prems by simp
      then show ?thesis
        using step [of w2 ?x q] returns by (simp add: w1_def)
    qed
  next
    case False
    obtain q g where m: "mock_score_candidate E (rng w) name qt = (Inr (Fin q), g)"
        and q: "10 \<le> q" "q \<le> 100" "two_decimals q"
      using mock_score_candidate_cases [of E "rng w" name qt] by blast
    let ?x = "\<lparr>rec_id = candidate_id E name doc, rec_name = name,
                rec_score = Fin q, rec_url = None\<rparr>"
    have "score_files E w qt (upload # files) results
        = score_files E (w1\<lparr>rng := g\<rparr>) qt files (results @ [?x])"
      using pdf False m
      by (simp add: upload Let_def name_def [symmetric] doc_def [symmetric] w1_def)
    then have "score_files E (w1\<lparr>rng := g\<rparr>) qt files (results @ [?x]) = (Inr rs, w')"
      using Cons.prems by simp
    then show ?thesis
      using step [of "w1\<lparr>rng := g\<rparr>" ?x q] q by (simp add: w1_def)
  qed
qed

lemma mset_insort_right: "mset (insort_right x ys) = add_mset x (mset ys)"
  by (induction ys) auto

lemma mset_foldl_insort_right:
  "mset (foldl (\<lambda>acc x. insort_right x acc) acc xs) = mset acc + mset xs"
  by (induction xs arbitrary: acc) (auto simp: mset_insort_right)

lemma mset_sort_reverse: "mset (sort_reverse xs) = mset xs"
  by (simp add: sort_reverse_def sort_stable_def mset_foldl_insort_right)

lemma set_insort_right: "set (insort_right x ys) = insert x (set ys)"
  using mset_insort_right [of x ys] by (metis set_mset_add_mset_insert set_mset_mset)

lemma py_lt_le_Fin:
  "py_lt (Fin a) (Fin b) \<Longrightarrow> py_le (Fin a) (Fin b)"
  "\<not> py_lt (Fin a) (Fin b) \<Longrightarrow> py_le (Fin b) (Fin a)"
  "py_le (Fin a) (Fin b) \<Longrightarrow> py_le (Fin b) (Fin c) \<Longrightarrow> py_le (Fin a) (Fin c)"
  by simp_all

lemma sorted_insort_right:
  assumes "rec_score x \<in> range Fin" and "\<forall>y \<in> set ys. rec_score y \<in> range Fin"
    and "sorted_wrt (\<lambda>a b. py_le (rec_score a) (rec_score b)) ys"
  shows "sorted_wrt (\<lambda>a b. py_le (rec_score a) (rec_score b)) (insort_right x ys)"
  using assms(2,3)
proof (induction ys)
  case Nil
  then show ?case by simp
next
  case (Cons y ys)
  obtain a where a: "rec_score x = Fin a"
    using assms(1) by auto
  obtain b where b: "rec_score y = Fin b"
    using Cons.prems(1) by auto
  have rest: "\<forall>z \<in> set ys. \<exists>c. rec_score z = Fin c \<and> b \<le> c"
  proof
    fix z assume z: "z \<in> set ys"
    then obtain c where c: "rec_score z = Fin c"
      using Cons.prems(1) by auto
    have "py_le (rec_score y) (rec_score z)"
      using Cons.prems(2) z by simp
    then show "\<exists>c. rec_score z = Fin c \<and> b \<le> c"
      using b c by simp
  qed
  show ?case
  proof (cases "py_lt (rec_score x) (rec_score y)")
    case True
    then have "a < b" using a b by simp
    then have "\<forall>z \<in> set (y # ys). py_le (rec_score x) (rec_score z)"
      using a b rest by fastforce
    then show ?thesis
      using True Cons.prems(2) by simp
  next
    case False
    then have "b \<le> a" using a b by simp
    then have "\<forall>z \<in> set (insort_right x ys). py_le (rec_score y) (rec_score z)"
      using a b rest by (fastforce simp: set_insort_right)
    moreover have "sorted_wrt (\<lambda>a b. py_le (rec_score a) (rec_score b)) (insort_right x ys)"
      using Cons.IH Cons.prems by simp
    ultimately show ?thesis
      using False by simp
  qed
qed

lemma sorted_foldl_insort_right:
  assumes "\<forall>y \<in> set acc \<union> set xs. rec_score y \<in> range Fin"
    and "sorted_wrt (\<lambda>a b. py_le (rec_score a) (rec_score b)) acc"
  shows "sorted_wrt (\<lambda>a b. py_le (rec_score a) (rec_score b))
    (foldl (\<lambda>acc x. insort_right x acc) acc xs)"
  using assms
proof (induction xs arbitrary: acc)
  case Nil
  then show ?case by simp
next
  case (Cons x xs)
  have "sorted_wrt (\<lambda>a b. py_le (rec_score a) (rec_score b)) (insort_right x acc)"
    using Cons.prems by (intro sorted_insort_right) auto
  moreover have "\<forall>y \<in> set (insort_right x acc) \<union> set xs. rec_score y \<in> range Fin"
    using Cons.prems(1) by (auto simp: set_insort_right)
  ultimately show ?case
    using Cons.IH [of "insort_right x acc"] by simp
qed

lemma sorted_sort_reverse:
  assumes "\<forall>y \<in> set xs. rec_score y \<in> range Fin"
  shows "sorted_wrt (\<lambda>a b. py_le (rec_score b) (rec_score a)) (sort_reverse xs)"
proof -
  have "sorted_wrt (\<lambda>a b. py_le (rec_score a) (rec_score b)) (sort_stable (rev xs))"
    unfolding sort_stable_def using assms by (intro sorted_foldl_insort_right) auto
  then show ?thesis
    by (simp add: sort_reverse_def sorted_wrt_rev)
qed

lemma screen_candidates_returns:
  assumes "screen_candidates E w files qualities = (Inr resp, w')"
  shows "\<exists>results. score_files E w (normalize_qualities qualities) files [] = (Inr results, w')
    \<and> resp = sort_reverse results \<and> files \<noteq> [] \<and> strip qualities \<noteq> []"
  using assms by (auto simp: screen_candidates_def split: if_splits prod.splits sum.splits)

lemma screen_candidates_sorted_desc:
  assumes "screen_candidates E w files qualities = (Inr resp, w')"
  shows "sorted_wrt (\<lambda>a b. py_le (rec_score b) (rec_score a)) resp"
proof -
  obtain results where r: "score_files E w (normalize_qualities qualities) files [] = (Inr results, w')"
      "resp = sort_reverse results"
    using screen_candidates_returns [OF assms] by blast
  have "list_all (\<lambda>r. \<exists>q. rec_score r = Fin q \<and> 0 \<le> q \<and> q \<le> 100 \<and> two_decimals q) results"
    using score_files_returns [OF r(1)] by auto
  then have "\<forall>y \<in> set results. rec_score y \<in> range Fin"
    by (auto simp: list_all_iff)
  then show ?thesis
    unfolding r(2) by (rule sorted_sort_reverse)
qed

lemma screen_candidates_id_mset:
  assumes "screen_candidates E w files qualities = (Inr resp, w')"
  shows "mset (map rec_id resp)
    = mset (map (\<lambda>f. candidate_id E (candidate_name (fst f)) (extract_pdf_text E (snd f))) files)"
proof -
  obtain results where r: "score_files E w (normalize_qualities qualities) files [] = (Inr results, w')"
      "resp = sort_reverse results"
    using screen_candidates_returns [OF assms] by blast
  have "map rec_id results
      = map (\<lambda>f. candidate_id E (candidate_name (fst f)) (extract_pdf_text E (snd f))) files"
    using score_files_returns [OF r(1)] by auto
  moreover have "mset (map rec_id resp) = mset (map rec_id results)"
    unfolding r(2) by (metis mset_map mset_sort_reverse)
  ultimately show ?thesis
    by simp
qed

subsection \<open>The key of an identifier\<close>

lemma digits10_nonempty: "digits10 n \<noteq> []"
  by (induction n rule: digits10.induct) (subst digits10.simps, simp)

lemma digit_char_inj:
  fixes a b :: nat
  assumes "a < 10" and "b < 10" and "char_of (48 + a) = (char_of (48 + b) :: char)"
  shows "a = b"
proof -
  have "(48 + a) mod 256 = (48 + b) mod 256"
    using assms(3) by simp
  then show ?thesis
    using assms(1,2) by simp
qed

lemma digits10_small: "n < 10 \<Longrightarrow> digits10 n = [char_of (48 + n)]"
  by (subst digits10.simps) simp

lemma digits10_large:
  "\<not> n < 10 \<Longrightarrow> digits10 n = digits10 (n div 10) @ [char_of (48 + n mod 10)]"
  by (subst digits10.simps) simp

lemma digits10_inj: "digits10 m = digits10 n \<Longrightarrow> m = n"
proof (induction m arbitrary: n rule: digits10.induct)
  case (1 m)
  show ?case
  proof (cases "m < 10")
    case m: True
    show ?thesis
    proof (cases "n < 10")
      case True
      then show ?thesis
        using m "1.prems" digit_char_inj [of m n] by (simp add: digits10_small)
    next
      case False
      then show ?thesis
        using m "1.prems" digits10_nonempty [of "n div 10"]
        by (simp add: digits10_small digits10_large)
    qed
  next
    case m: False
    show ?thesis
    proof (cases "n < 10")
      case True
      then show ?thesis
        using m "1.prems" digits10_nonempty [of "m div 10"]
        by (simp add: digits10_small digits10_large)
    next
      case False
      have eq: "digits10 (m div 10) = digits10 (n div 10)"
          "char_of (48 + m mod 10) = (char_of (48 + n mod 10) :: char)"
        using m False "1.prems" by (simp_all add: digits10_large)
      have "m div 10 = n div 10"
        using "1.IH" [OF m eq(1)] .
      moreover have "m mod 10 = n mod 10"
        using digit_char_inj [OF _ _ eq(2)] by simp
      ultimately show ?thesis
        by (metis div_mult_mod_eq)
    qed
  qed
qed

lemma digits10_no_colon: "CHR '':'' \<notin> set (digits10 n)"
proof (induction n rule: digits10.induct)
  case (1 n)
  have d: "CHR '':'' \<noteq> char_of (48 + k)" if "k < 10" for k :: nat
  proof
    assume "CHR '':'' = char_of (48 + k)"
    then have "(of_char (CHR '':'') :: nat) = of_char (char_of (48 + k) :: char)"
      by simp
    then show False
      using that by simp
  qed
  show ?case
  proof (cases "n < 10")
    case True
    then show ?thesis using d by (simp add: digits10_small)
  next
    case False
    then show ?thesis using "1.IH" d [of "n mod 10"] by (simp add: digits10_large)
  qed
qed

lemma split_at_last_colon:
  assumes "a @ CHR '':'' # x = b @ CHR '':'' # y"
    and "CHR '':'' \<notin> set x" and "CHR '':'' \<notin> set y"
  shows "a = b \<and> x = y"
proof -
  from assms(1) consider u where "a = b @ u" "u @ CHR '':'' # x = CHR '':'' # y"
    | u where "a @ u = b" "CHR '':'' # x = u @ CHR '':'' # y"
    by (auto simp: append_eq_append_conv2)
  then show ?thesis
  proof cases
    case 1
    have "u = []"
    proof (cases u)
      case (Cons c v)
      then have "v @ CHR '':'' # x = y" using 1(2) by simp
      then show ?thesis using assms(3) by auto
    qed simp
    then show ?thesis using 1 by simp
  next
    case 2
    have "u = []"
    proof (cases u)
      case (Cons c v)
      then have "x = v @ CHR '':'' # y" using 2(2) by simp
      then show ?thesis using assms(2) by auto
    qed simp
    then show ?thesis using 2 by simp
  qed
qed

lemma id_key_inj:
  assumes "id_key a x = id_key b y"
  shows "a = b \<and> length x = length y"
proof -
  have "a = b \<and> digits10 (length x) = digits10 (length y)"
    using assms digits10_no_colon by (intro split_at_last_colon) (simp_all add: id_key_def)
  then show ?thesis
    using digits10_inj by blast
qed

subsection \<open>Evaluation on the test environment\<close>

lemmas file_eval = is_pdf_def lower_def lower_char_def endswith_def candidate_name_def
  splitext_root_def basename_def rfind_char_def slice_from_def slice_to_def slice_def
  char_of_eq_iff

lemma hex_digits_numeral:
  "hex_digits (numeral k) d = hex_digits (pred_numeral k) (d div 16) @ [hex_char (d mod 16)]"
proof -
  have "numeral k = Suc (pred_numeral k)"
    by (rule numeral_eq_Suc)
  then show ?thesis
    by (simp only: hex_digits.simps)
qed

lemma hex_digits_1: "hex_digits 1 d = [hex_char (d mod 16)]"
  by (simp only: One_nat_def hex_digits.simps append_Nil)

lemmas id_eval = candidate_id_def id_key_def digits10_small test_env_def hexdigest_def hex_digits_numeral hex_digits_1
  hex_char_def slice_to_def slice_def Let_def char_of_eq_iff

lemma test_files:
  "is_pdf ''a.pdf''" "is_pdf ''b.pdf''" "is_pdf ''cv.pdf''" "is_pdf ''CV.PDF''"
  "\<not> is_pdf ''b.txt''" "\<not> is_pdf ''notes.txt''"
  "candidate_name ''a.pdf'' = ''a''" "candidate_name ''b.pdf'' = ''b''"
  "candidate_name ''cv.pdf'' = ''cv''" "candidate_name ''CV.PDF'' = ''CV''"
  by (simp_all add: file_eval)

lemma test_extract: "extract_pdf_text E0 [] = []" if "E0 = test_env \<or> E0 = test_env\<lparr>OPENAI_API_KEY := None\<rparr>"
  using that
  by (auto simp: extract_pdf_text_def test_env_def strip_def lstrip_def rstrip_def or_empty_def)

lemma test_qualities: "normalize_qualities ''python'' = ''- python''" "strip ''python'' \<noteq> []"
  by (simp_all add: normalize_qualities_def splitlines_def is_linebreak_def strip_def lstrip_def
      rstrip_def py_isspace_def)

lemma test_ids:
  "candidate_id test_env ''a'' [] = ''0000000cb0''"
  "candidate_id test_env ''b'' [] = ''0000000cc0''"
  "candidate_id test_env ''cv'' [] = ''0000001430''"
  by (simp_all add: id_eval)

lemma test_openai:
  assumes "requests w < length test_replies"
  shows "openai_score_cv test_env w qt doc name =
    (let (x, r) = (case parse_reply test_env (strip (test_replies ! requests w)) of
                     Inl e \<Rightarrow> (Fin 50, ''Parse error; defaulted to 50.'')
                   | Inr p \<Rightarrow> p)
     in (Inr \<lparr>score = clamp_score x, reason = r, json_mode = True\<rparr>,
         w\<lparr>requests := requests w + 1\<rparr>))"
proof -
  have "model_replies test_env w (user_message qt doc name) (Some (test_replies ! requests w)) True"
    using assms by (simp add: model_replies_def test_env_def)
  then show ?thesis
    using openai_score_cv_replies [OF test_client] by (simp add: or_empty_def)
qed

lemma test_parse:
  "parse_reply test_env (strip (test_replies ! 0)) = Inr (Fin 40, [])"
  "parse_reply test_env (strip (test_replies ! Suc 0)) = Inr (Fin 90, [])"
  "length test_replies = 5"
  by (simp_all add: parse_reply_def coerce_json_from_model_def str_eval test_eval py_str_def)

lemma test_clamp: "clamp_score (Fin 40) = Fin 40" "clamp_score (Fin 90) = Fin 90"
  by (simp_all add: clamp_score_def py_round2_def round_half_even_def py_min_def py_max_def)

lemma test_no_key:
  "openai_score_cv (test_env\<lparr>OPENAI_API_KEY := None\<rparr>) w qt doc name
     = (Inl (HTTPException 500 ''OpenAI client not initialized.''), w)"
  by (simp add: openai_score_cv_def client_def truthy_def)

lemma test_use_openai: "USE_OPENAI test_env" "USE_OPENAI (test_env\<lparr>OPENAI_API_KEY := None\<rparr>)"
  by (simp_all add: test_env_def)

lemmas run_eval = screen_candidates_def test_files test_extract test_qualities test_ids
  test_openai test_parse test_clamp test_no_key test_use_openai test_world_def
  sort_reverse_def sort_stable_def Let_def

lemma test_run_two:
  "screen_candidates test_env (test_world 0) [(''a.pdf'', []), (''b.pdf'', [])] ''python'' =
     (Inr [\<lparr>rec_id = ''0000000cc0'', rec_name = ''b'', rec_score = Fin 90, rec_url = None\<rparr>,
           \<lparr>rec_id = ''0000000cb0'', rec_name = ''a'', rec_score = Fin 40, rec_url = None\<rparr>],
      \<lparr>rng = 0, requests = 2, scorer_calls = [''a'', ''b'']\<rparr>)"
  by (simp add: run_eval)

lemma test_run_same:
  "screen_candidates test_env (test_world 0) [(''cv.pdf'', []), (''cv.pdf'', [])] ''python'' =
     (Inr [\<lparr>rec_id = ''0000001430'', rec_name = ''cv'', rec_score = Fin 90, rec_url = None\<rparr>,
           \<lparr>rec_id = ''0000001430'', rec_name = ''cv'', rec_score = Fin 40, rec_url = None\<rparr>],
      \<lparr>rng = 0, requests = 2, scorer_calls = [''cv'', ''cv'']\<rparr>)"
  by (simp add: run_eval)

lemma test_run_mixed:
  "screen_candidates test_env (test_world 0) [(''a.pdf'', []), (''b.txt'', [])] ''python'' =
     (Inl (HTTPException 400 ''Only PDFs allowed: b.txt''),
      \<lparr>rng = 0, requests = 1, scorer_calls = [''a'']\<rparr>)"
  by (simp add: run_eval)

lemma test_run_no_key:
  "screen_candidates (test_env\<lparr>OPENAI_API_KEY := None\<rparr>) (test_world 0)
       [(''a.pdf'', []), (''b.txt'', [])] ''python'' =
     (Inl (HTTPException 500 ''OpenAI client not initialized.''),
      \<lparr>rng = 0, requests = 0, scorer_calls = [''a'']\<rparr>)"
  by (simp add: run_eval)

subsection \<open>The claims about the handler\<close>

text \<open>
  C3, as the code has it. The file names are checked one by one inside the loop, each
  just before its candidate is scored. So a batch with a file that is no PDF, sent with
  qualities that are not blank, behaves exactly as the scoring of the files before the
  first such file, followed by the rejection: these candidates are scored first, in
  order; if one of their scorings fails, the request fails with that status 500 and the
  later ones are not scored; otherwise all of them have been scored and the request
  fails with status 400. It never completes, and no candidate at or behind that file is
  scored. When the first file of the batch is no PDF, nothing is scored and the world is
  left as it was.
\<close>

theorem screen_candidates_non_pdf:
  assumes "list_all (\<lambda>f. is_pdf (fst f)) pre" and "\<not> is_pdf bad" and "strip qualities \<noteq> []"
  shows "screen_candidates E w (pre @ (bad, content) # rest) qualities =
      (case score_files E w (normalize_qualities qualities) pre [] of
         (Inl e, w') \<Rightarrow> (Inl e, w')
       | (Inr rs, w') \<Rightarrow> (Inl (HTTPException 400 (''Only PDFs allowed: '' @ bad)), w'))
    \<and> (\<exists>e k w'. screen_candidates E w (pre @ (bad, content) # rest) qualities = (Inl e, w')
        \<and> k \<le> length pre
        \<and> scorer_calls w' = scorer_calls w @ map (\<lambda>f. candidate_name (fst f)) (take k pre)
        \<and> (e = HTTPException 400 (''Only PDFs allowed: '' @ bad) \<and> k = length pre
           \<or> status_code e = 500 \<and> USE_OPENAI E \<and> 0 < k)
        \<and> (pre = [] \<longrightarrow> w' = w))"
proof -
  let ?qt = "normalize_qualities qualities"
  let ?files = "pre @ (bad, content) # rest"
  let ?reject = "HTTPException 400 (''Only PDFs allowed: '' @ bad)"
  have eq: "screen_candidates E w ?files qualities =
      (case score_files E w ?qt pre [] of
         (Inl e, w') \<Rightarrow> (Inl e, w')
       | (Inr rs, w') \<Rightarrow> (Inl ?reject, w'))"
    using assms(3) score_files_prefix [OF assms(2), of E w ?qt pre content rest "[]"]
    by (simp add: screen_candidates_def split: prod.splits sum.splits)
  obtain res w' where run: "score_files E w ?qt pre [] = (res, w')"
    by (cases "score_files E w ?qt pre []")
  have nil: "pre = [] \<longrightarrow> w' = w"
    using run by auto
  have "\<exists>e k w'. screen_candidates E w ?files qualities = (Inl e, w')
      \<and> k \<le> length pre
      \<and> scorer_calls w' = scorer_calls w @ map (\<lambda>f. candidate_name (fst f)) (take k pre)
      \<and> (e = ?reject \<and> k = length pre \<or> status_code e = 500 \<and> USE_OPENAI E \<and> 0 < k)
      \<and> (pre = [] \<longrightarrow> w' = w)"
  proof (cases res)
    case (Inl e)
    obtain k where k: "status_code e = 500" "USE_OPENAI E" "0 < k" "k \<le> length pre"
        "scorer_calls w' = scorer_calls w @ map (\<lambda>f. candidate_name (fst f)) (take k pre)"
      using score_files_fails [OF assms(1)] run Inl by blast
    have "screen_candidates E w ?files qualities = (Inl e, w')"
      using eq run Inl by simp
    then show ?thesis
      using k nil by blast
  next
    case (Inr rs)
    have "scorer_calls w' = scorer_calls w @ map (\<lambda>f. candidate_name (fst f)) (take (length pre) pre)"
      using score_files_returns [of E w ?qt pre "[]" rs w'] run Inr by auto
    moreover have "screen_candidates E w ?files qualities = (Inl ?reject, w')"
      using eq run Inr by simp
    ultimately show ?thesis
      using nil by blast
  qed
  then show ?thesis
    using eq by blast
qed

theorem screen_candidates_non_pdf_witness:
  "list_all (\<lambda>f. is_pdf (fst f)) [(''a.pdf'', []), (''b.pdf'', [] :: bytes)]
   \<and> \<not> is_pdf ''notes.txt'' \<and> strip ''python'' \<noteq> []
   \<and> screen_candidates test_env (test_world 0)
       [(''a.pdf'', []), (''b.pdf'', []), (''notes.txt'', []), (''cv.pdf'', [])] ''python''
     = (Inl (HTTPException 400 ''Only PDFs allowed: notes.txt''),
        \<lparr>rng = 0, requests = 2, scorer_calls = [''a'', ''b'']\<rparr>)
   \<and> score_files test_env (test_world 0) (normalize_qualities ''python'')
       [(''a.pdf'', []), (''b.pdf'', [])] []
     = (Inr [\<lparr>rec_id = ''0000000cb0'', rec_name = ''a'', rec_score = Fin 40, rec_url = None\<rparr>,
             \<lparr>rec_id = ''0000000cc0'', rec_name = ''b'', rec_score = Fin 90, rec_url = None\<rparr>],
        \<lparr>rng = 0, requests = 2, scorer_calls = [''a'', ''b'']\<rparr>)
   \<and> screen_candidates test_env (test_world 0) [(''notes.txt'', []), (''a.pdf'', [])] ''python''
     = (Inl (HTTPException 400 ''Only PDFs allowed: notes.txt''), test_world 0)"
proof -
  have h1: "list_all (\<lambda>f. is_pdf (fst f)) [(''a.pdf'', []), (''b.pdf'', [] :: bytes)]"
    by (simp add: test_files)
  have h0: "list_all (\<lambda>f. is_pdf (fst f)) ([] :: (string \<times> bytes) list)"
    by simp
  have h2: "\<not> is_pdf ''notes.txt''"
    by (rule test_files)
  have h3: "strip ''python'' \<noteq> []"
    by (rule test_qualities)
  have run: "score_files test_env (test_world 0) (normalize_qualities ''python'')
       [(''a.pdf'', []), (''b.pdf'', [])] []
     = (Inr [\<lparr>rec_id = ''0000000cb0'', rec_name = ''a'', rec_score = Fin 40, rec_url = None\<rparr>,
             \<lparr>rec_id = ''0000000cc0'', rec_name = ''b'', rec_score = Fin 90, rec_url = None\<rparr>],
        \<lparr>rng = 0, requests = 2, scorer_calls = [''a'', ''b'']\<rparr>)"
    by (simp add: run_eval)
  have a: "screen_candidates test_env (test_world 0)
       [(''a.pdf'', []), (''b.pdf'', []), (''notes.txt'', []), (''cv.pdf'', [])] ''python''
     = (Inl (HTTPException 400 ''Only PDFs allowed: notes.txt''),
        \<lparr>rng = 0, requests = 2, scorer_calls = [''a'', ''b'']\<rparr>)"
    using screen_candidates_non_pdf [OF h1 h2 h3, of test_env "test_world 0" "[]" "[(''cv.pdf'', [])]",
        THEN conjunct1]
    unfolding run by simp
  have b: "screen_candidates test_env (test_world 0) [(''notes.txt'', []), (''a.pdf'', [])] ''python''
     = (Inl (HTTPException 400 ''Only PDFs allowed: notes.txt''), test_world 0)"
    using screen_candidates_non_pdf [OF h0 h2 h3, of test_env "test_world 0" "[]" "[(''a.pdf'', [])]",
        THEN conjunct1]
    by simp
  show ?thesis
    using h1 h2 h3 run a b by blast
qed

text \<open>
  A PDF followed by a text file: the first candidate is scored, with a request to the
  model, before the request is rejected; and with no client configured the same batch
  fails with status 500.
\<close>

theorem screen_candidates_scores_before_rejecting:
  "screen_candidates test_env (test_world 0) [(''a.pdf'', []), (''b.txt'', [])] ''python''
     = (Inl (HTTPException 400 ''Only PDFs allowed: b.txt''),
        \<lparr>rng = 0, requests = 1, scorer_calls = [''a'']\<rparr>)
   \<and> screen_candidates (test_env\<lparr>OPENAI_API_KEY := None\<rparr>) (test_world 0)
       [(''a.pdf'', []), (''b.txt'', [])] ''python''
     = (Inl (HTTPException 500 ''OpenAI client not initialized.''),
        \<lparr>rng = 0, requests = 0, scorer_calls = [''a'']\<rparr>)"
  using test_run_mixed test_run_no_key by simp

text \<open>
  C5. The response of a batch that completes is in descending order of score: the score
  of a record is at least the score of every record behind it.
\<close>

theorem screen_candidates_sorted:
  assumes "screen_candidates E w files qualities = (Inr resp, w')"
  shows "sorted_wrt (\<lambda>a b. py_le (rec_score b) (rec_score a)) resp"
  using assms by (rule screen_candidates_sorted_desc)

theorem screen_candidates_sorted_witness:
  "screen_candidates test_env (test_world 0) [(''a.pdf'', []), (''b.pdf'', [])] ''python'' =
     (Inr [\<lparr>rec_id = ''0000000cc0'', rec_name = ''b'', rec_score = Fin 90, rec_url = None\<rparr>,
           \<lparr>rec_id = ''0000000cb0'', rec_name = ''a'', rec_score = Fin 40, rec_url = None\<rparr>],
      \<lparr>rng = 0, requests = 2, scorer_calls = [''a'', ''b'']\<rparr>)
   \<and> sorted_wrt (\<lambda>a b. py_le (rec_score b) (rec_score a))
     [\<lparr>rec_id = ''0000000cc0'', rec_name = ''b'', rec_score = Fin 90, rec_url = None\<rparr>,
      \<lparr>rec_id = ''0000000cb0'', rec_name = ''a'', rec_score = Fin 40, rec_url = None\<rparr>]"
  using test_run_two screen_candidates_sorted [OF test_run_two] by blast

text \<open>
  C9, as the code has it. The identifiers of a response are the identifiers computed for
  the uploaded files, each the first ten digits of the SHA-1 of the name, a colon and the
  length of the text. So they are pairwise distinct exactly when these are pairwise
  distinct over the files; and they are when no two files share both the name and the
  length of the text and the ten digits do not collide on the keys of the batch.
\<close>

theorem screen_candidates_ids:
  assumes "screen_candidates E w files qualities = (Inr resp, w')"
  shows "(distinct (map rec_id resp) \<longleftrightarrow>
      distinct (map (\<lambda>f. candidate_id E (candidate_name (fst f)) (extract_pdf_text E (snd f))) files))
    \<and> (distinct (map (\<lambda>f. (candidate_name (fst f), length (extract_pdf_text E (snd f)))) files)
        \<and> inj_on (\<lambda>k. slice_to (hexdigest (sha1 E k)) 10)
            ((\<lambda>f. id_key (candidate_name (fst f)) (extract_pdf_text E (snd f))) ` set files)
      \<longrightarrow> distinct (map rec_id resp))"
proof -
  let ?key = "\<lambda>f. id_key (candidate_name (fst f)) (extract_pdf_text E (snd f))"
  let ?pair = "\<lambda>f. (candidate_name (fst f), length (extract_pdf_text E (snd f)))"
  let ?h = "\<lambda>k. slice_to (hexdigest (sha1 E k)) 10"
  let ?id = "\<lambda>f. candidate_id E (candidate_name (fst f)) (extract_pdf_text E (snd f))"
  have iff: "distinct (map rec_id resp) \<longleftrightarrow> distinct (map ?id files)"
    using screen_candidates_id_mset [OF assms] by (rule mset_eq_imp_distinct_iff)
  have "distinct (map ?id files)"
    if d: "distinct (map ?pair files)" and i: "inj_on ?h (?key ` set files)"
  proof -
    have "distinct files" "inj_on ?pair (set files)"
      using d by (simp_all add: distinct_map)
    moreover have "inj_on ?key (set files)"
    proof (rule inj_onI)
      fix f g assume fg: "f \<in> set files" "g \<in> set files" "?key f = ?key g"
      then have "?pair f = ?pair g"
        using id_key_inj by blast
      then show "f = g"
        using \<open>inj_on ?pair (set files)\<close> fg(1,2) by (meson inj_onD)
    qed
    ultimately have "distinct (map (?h \<circ> ?key) files)"
      using i by (simp add: distinct_map comp_inj_on)
    moreover have "?h \<circ> ?key = ?id"
      by (rule ext) (simp add: candidate_id_def)
    ultimately show ?thesis
      by simp
  qed
  then show ?thesis
    using iff by blast
qed

theorem screen_candidates_ids_witness:
  "screen_candidates test_env (test_world 0) [(''a.pdf'', []), (''b.pdf'', [])] ''python'' =
     (Inr [\<lparr>rec_id = ''0000000cc0'', rec_name = ''b'', rec_score = Fin 90, rec_url = None\<rparr>,
           \<lparr>rec_id = ''0000000cb0'', rec_name = ''a'', rec_score = Fin 40, rec_url = None\<rparr>],
      \<lparr>rng = 0, requests = 2, scorer_calls = [''a'', ''b'']\<rparr>)
   \<and> distinct (map (\<lambda>f. (candidate_name (fst f), length (extract_pdf_text test_env (snd f))))
       [(''a.pdf'', []), (''b.pdf'', [])])
   \<and> inj_on (\<lambda>k. slice_to (hexdigest (sha1 test_env k)) 10)
       ((\<lambda>f. id_key (candidate_name (fst f)) (extract_pdf_text test_env (snd f)))
          ` set [(''a.pdf'', []), (''b.pdf'', [])])
   \<and> distinct (map (\<lambda>f. candidate_id test_env (candidate_name (fst f))
         (extract_pdf_text test_env (snd f))) [(''a.pdf'', []), (''b.pdf'', [])])
   \<and> distinct (map rec_id
     [\<lparr>rec_id = ''0000000cc0'', rec_name = ''b'', rec_score = Fin 90, rec_url = None\<rparr>,
      \<lparr>rec_id = ''0000000cb0'', rec_name = ''a'', rec_score = Fin 40, rec_url = None\<rparr>])"
proof -
  have h: "distinct (map (\<lambda>f. (candidate_name (fst f), length (extract_pdf_text test_env (snd f))))
        [(''a.pdf'', []), (''b.pdf'', [])])
    \<and> inj_on (\<lambda>k. slice_to (hexdigest (sha1 test_env k)) 10)
        ((\<lambda>f. id_key (candidate_name (fst f)) (extract_pdf_text test_env (snd f)))
           ` set [(''a.pdf'', []), (''b.pdf'', [])])"
    using test_ids(1,2) by (auto simp: test_files test_extract candidate_id_def)
  have "distinct (map (\<lambda>f. candidate_id test_env (candidate_name (fst f))
         (extract_pdf_text test_env (snd f))) [(''a.pdf'', []), (''b.pdf'', [])])"
    by (simp add: test_files test_extract test_ids)
  then show ?thesis
    using h test_run_two screen_candidates_ids [OF test_run_two] by simp
qed

text \<open>
  The same file name uploaded twice, with texts of the same length: the two records of
  the response carry the same identifier.
\<close>

theorem screen_candidates_same_id:
  "screen_candidates test_env (test_world 0) [(''cv.pdf'', []), (''cv.pdf'', [])] ''python'' =
     (Inr [\<lparr>rec_id = ''0000001430'', rec_name = ''cv'', rec_score = Fin 90, rec_url = None\<rparr>,
           \<lparr>rec_id = ''0000001430'', rec_name = ''cv'', rec_score = Fin 40, rec_url = None\<rparr>],
      \<lparr>rng = 0, requests = 2, scorer_calls = [''cv'', ''cv'']\<rparr>)
   \<and> \<not> distinct (map rec_id
     [\<lparr>rec_id = ''0000001430'', rec_name = ''cv'', rec_score = Fin 90, rec_url = None\<rparr>,
      \<lparr>rec_id = ''0000001430'', rec_name = ''cv'', rec_score = Fin 40, rec_url = None\<rparr>])"
  using test_run_same by simp

end
